theory Spec2Isabelle
  imports Complex_Main
begin

section \<open>JavaScript strings\<close>

text \<open>
  A JavaScript string is a sequence of UTF-16 code units. The model keeps that reading:
  a string is a list of code units (natural numbers, each below 65536 in a real run), so
  that \<open>length\<close>, \<open>take\<close> and the regular expressions count what the source counts.
  A literal of the source is written \<open>js ''...''\<close>.
\<close>

type_synonym jschar = nat
type_synonym jsstring = "jschar list"

definition js :: "string \<Rightarrow> jsstring" where
  "js s = map of_char s"

text \<open>Template literals print integers in decimal: \<open>`${res.status}`\<close>, \<open>`${Date.now()}`\<close>.\<close>

function show_nat :: "nat \<Rightarrow> jsstring" where
  "show_nat n = (if n < 10 then [48 + n] else show_nat (n div 10) @ [48 + n mod 10])"
  by pat_completeness auto
termination
  by (relation "measure id") auto

definition show_int :: "int \<Rightarrow> jsstring" where
  "show_int i = (if i < 0 then 45 # show_nat (nat (- i)) else show_nat (nat i))"

text \<open>
  The class \<open>\s\<close> of a regular expression, which is also what \<open>trim\<close> strips:
  WhiteSpace and LineTerminator of ECMAScript.
\<close>

definition is_ws :: "jschar \<Rightarrow> bool" where
  "is_ws c \<longleftrightarrow>
     c = 9 \<or> c = 10 \<or> c = 11 \<or> c = 12 \<or> c = 13 \<or> c = 32 \<or> c = 160 \<or> c = 5760 \<or>
     (8192 \<le> c \<and> c \<le> 8202) \<or> c = 8232 \<or> c = 8233 \<or> c = 8239 \<or> c = 8287 \<or>
     c = 12288 \<or> c = 65279"

definition trim :: "jsstring \<Rightarrow> jsstring" where
  "trim s = rev (dropWhile is_ws (rev (dropWhile is_ws s)))"

section \<open>Errors, collaborators and the world\<close>

text \<open>
  A rejected promise or a \<open>throw\<close> is a value: \<open>Error msg\<close> for \<open>new Error(msg)\<close> and for
  whatever a collaborator rejects with, \<open>TypeError\<close> for a property read on \<open>null\<close>.
\<close>

datatype js_error = Error jsstring | TypeError jsstring

text \<open>What \<open>fetch\<close> resolves to: \<open>res.ok\<close>, \<open>res.status\<close> and the outcome of \<open>res.text()\<close>.\<close>

record http_response =
  res_ok :: bool
  res_status :: nat
  res_text :: "js_error + jsstring"

text \<open>
  The collaborators of the stage bodies. Each may fail. \<open>toLowerCase\<close> stands for the
  Unicode case table of the runtime, \<open>Date_now\<close> for the clock.
\<close>

record env =
  http_fetch :: "jsstring \<Rightarrow> js_error + http_response"
  summarizer_generate :: "jsstring \<Rightarrow> js_error + jsstring"
  critic_generate :: "jsstring \<Rightarrow> js_error + jsstring"
  fs_mkdir :: "jsstring \<Rightarrow> js_error option"
  fs_writeFile :: "jsstring \<Rightarrow> jsstring \<Rightarrow> js_error option"
  toLowerCase :: "jsstring \<Rightarrow> jsstring"
  Date_now :: int

text \<open>The calls made to the collaborators, in order, and the files written.\<close>

datatype call =
    Fetch jsstring
  | SummarizerGenerate jsstring
  | CriticGenerate jsstring
  | Mkdir jsstring
  | WriteFile jsstring jsstring

record world =
  calls :: "call list"
  files :: "jsstring \<rightharpoonup> jsstring"

definition log_call :: "call \<Rightarrow> world \<Rightarrow> world" where
  "log_call c w = w\<lparr>calls := calls w @ [c]\<rparr>"

section \<open>The conditional-save stage\<close>

record with_url =
  url :: jsstring

record titled = with_url +
  title :: jsstring

record 's save_input = titled +
  score :: 's
  summary :: jsstring

record save_output =
  saved :: bool
  filePath :: "jsstring option"

text \<open>\<open>.replace(/[^a-z0-9]+/g, '-')\<close>: every maximal run of other characters becomes one dash.\<close>

definition is_slug_char :: "jschar \<Rightarrow> bool" where
  "is_slug_char c \<longleftrightarrow> (97 \<le> c \<and> c \<le> 122) \<or> (48 \<le> c \<and> c \<le> 57)"

function replace_non_slug :: "jsstring \<Rightarrow> jsstring" where
  "replace_non_slug [] = []"
| "replace_non_slug (c # cs) =
     (if is_slug_char c then c # replace_non_slug cs
      else 45 # replace_non_slug (dropWhile (\<lambda>d. \<not> is_slug_char d) cs))"
  by pat_completeness auto
termination
  by (relation "measure length") (auto simp: less_Suc_eq_le length_dropWhile_le)

text \<open>
  \<open>path.join('./workspace/summaries', fileName)\<close> on a POSIX host, for a file name without
  a separator (the slug has none): the normalised directory, a slash, the file name.
  \<open>path.dirname\<close> of the result is the directory again.
\<close>

definition summaries_dir :: jsstring where
  "summaries_dir = js ''workspace/summaries''"

definition path_join_summaries :: "jsstring \<Rightarrow> jsstring" where
  "path_join_summaries fileName = summaries_dir @ js ''/'' @ fileName"

definition save_fileName :: "env \<Rightarrow> jsstring \<Rightarrow> jsstring" where
  "save_fileName e t =
     take 50 (replace_non_slug (toLowerCase e t)) @ js ''-'' @ show_int (Date_now e) @ js ''.md''"

definition save_content :: "real save_input \<Rightarrow> jsstring" where
  "save_content inputData =
     js ''# '' @ title inputData @ [10, 10] @ js ''> Source: '' @ url inputData @ [10, 10]
       @ summary inputData @ [10]"

definition conditionalSaveStep ::
    "env \<Rightarrow> world \<Rightarrow> real save_input \<Rightarrow> world \<times> (js_error + save_output)" where
  "conditionalSaveStep e w inputData =
     (if score inputData < 7 then (w, Inr \<lparr>saved = False, filePath = None\<rparr>)
      else
        let fileName = save_fileName e (title inputData);
            path = path_join_summaries fileName;
            w1 = log_call (Mkdir summaries_dir) w
        in case fs_mkdir e summaries_dir of
             Some err \<Rightarrow> (w1, Inl err)
           | None \<Rightarrow>
               let w2 = log_call (WriteFile path (save_content inputData)) w1
               in case fs_writeFile e path (save_content inputData) of
                    Some err \<Rightarrow> (w2, Inl err)
                  | None \<Rightarrow>
                      (w2\<lparr>files := (files w2)(path \<mapsto> save_content inputData)\<rparr>,
                       Inr \<lparr>saved = True, filePath = Some path\<rparr>))"

section \<open>The fetch stage and the fetch tool\<close>

text \<open>
  The regular expressions of the source are written out as matchers. The flag \<open>i\<close> folds
  the ASCII letters only: without the flag \<open>u\<close> no character above 127 is folded onto
  one below 128.
\<close>

definition upper :: "jschar \<Rightarrow> jschar" where
  "upper c = (if 97 \<le> c \<and> c \<le> 122 then c - 32 else c)"

definition ci_prefix :: "jsstring \<Rightarrow> jsstring \<Rightarrow> bool" where
  "ci_prefix p s \<longleftrightarrow> length p \<le> length s \<and> map upper (take (length p) s) = map upper p"

text \<open>The text after the first occurrence of \<open>p\<close> in \<open>s\<close>, letter case ignored.\<close>

fun find_ci :: "jsstring \<Rightarrow> jsstring \<Rightarrow> jsstring option" where
  "find_ci p [] = (if p = [] then Some [] else None)"
| "find_ci p (c # cs) =
     (if ci_prefix p (c # cs) then Some (drop (length p) (c # cs)) else find_ci p cs)"

lemma find_ci_length: "find_ci p s = Some r \<Longrightarrow> length r \<le> length s"
  by (induction s) (auto split: if_splits)

definition closing :: "jsstring \<Rightarrow> jsstring" where
  "closing tag = js ''</'' @ tag @ js ''>''"

text \<open>
  \<open>.replace(/<script[\s\S]*?<\/script>/gi, '')\<close> is \<open>strip_element (js ''script'')\<close>: from
  each \<open><script\<close> to the first \<open></script>\<close> after it, deleted; an opening with no closing
  after it stays. The same with \<open>style\<close>.
\<close>

function strip_element :: "jsstring \<Rightarrow> jsstring \<Rightarrow> jsstring" where
  "strip_element tag [] = []"
| "strip_element tag (c # cs) =
     (if ci_prefix (60 # tag) (c # cs) then
        (case find_ci (closing tag) (drop (length tag) cs) of
           Some rest \<Rightarrow> strip_element tag rest
         | None \<Rightarrow> c # strip_element tag cs)
      else c # strip_element tag cs)"
  by pat_completeness auto
termination
proof (relation "measure (\<lambda>(tag, s). length s)")
  fix tag :: jsstring and c :: jschar and cs rest :: jsstring
  assume "find_ci (closing tag) (drop (length tag) cs) = Some rest"
  then have "length rest \<le> length (drop (length tag) cs)"
    by (rule find_ci_length)
  then show "((tag, rest), (tag, c # cs)) \<in> measure (\<lambda>(tag, s). length s)"
    by simp
qed auto

text \<open>
  \<open>.replace(/<[^>]+>/g, ' ')\<close>: a \<open><\<close>, one character or more that is not \<open>>\<close>, and the
  first \<open>>\<close> after them become one space.
\<close>

function strip_tags :: "jsstring \<Rightarrow> jsstring" where
  "strip_tags [] = []"
| "strip_tags (c # cs) =
     (if c = 60 \<and> takeWhile (\<lambda>x. x \<noteq> 62) cs \<noteq> [] \<and> dropWhile (\<lambda>x. x \<noteq> 62) cs \<noteq> []
      then 32 # strip_tags (tl (dropWhile (\<lambda>x. x \<noteq> 62) cs))
      else c # strip_tags cs)"
  by pat_completeness auto
termination
  by (relation "measure length")
    (auto simp: less_Suc_eq_le le_diff_conv intro: le_SucI length_dropWhile_le)

text \<open>\<open>.replace(/\s{2,}/g, ' ')\<close>: a run of two white-space characters or more becomes one space.\<close>

function collapse_ws :: "jsstring \<Rightarrow> jsstring" where
  "collapse_ws [] = []"
| "collapse_ws [c] = [c]"
| "collapse_ws (c # d # ds) =
     (if is_ws c \<and> is_ws d then 32 # collapse_ws (dropWhile is_ws ds)
      else c # collapse_ws (d # ds))"
  by pat_completeness auto
termination
  by (relation "measure length") (auto simp: less_Suc_eq_le length_dropWhile_le le_SucI)

definition strip_html :: "jsstring \<Rightarrow> jsstring" where
  "strip_html html =
     trim (collapse_ws (strip_tags (strip_element (js ''style'') (strip_element (js ''script'') html))))"

text \<open>
  \<open>html.match(/<title[^>]*>([^<]+)<\/title>/i)\<close>. \<open>match_title_at s\<close> is the group when
  the expression matches at the start of \<open>s\<close>: both classes are greedy and exclude the
  character that must follow them, so the match is decided without backtracking.
  \<open>match_title\<close> takes the leftmost start at which it matches.
\<close>

definition match_title_at :: "jsstring \<Rightarrow> jsstring option" where
  "match_title_at s =
     (if ci_prefix (js ''<title'') s then
        (case dropWhile (\<lambda>x. x \<noteq> 62) (drop 6 s) of
           [] \<Rightarrow> None
         | g # b \<Rightarrow>
             if takeWhile (\<lambda>x. x \<noteq> 60) b \<noteq> []
                \<and> ci_prefix (js ''</title>'') (dropWhile (\<lambda>x. x \<noteq> 60) b)
             then Some (takeWhile (\<lambda>x. x \<noteq> 60) b) else None)
      else None)"

fun match_title :: "jsstring \<Rightarrow> jsstring option" where
  "match_title [] = None"
| "match_title (c # cs) =
     (case match_title_at (c # cs) of Some t \<Rightarrow> Some t | None \<Rightarrow> match_title cs)"

text \<open>
  \<open>text.split(/\s+/)\<close>: the pieces between the runs of white space. A text that starts
  or ends with white space has an empty first or last piece, and the empty text has the
  one piece \<open>''\<close>.
\<close>

function split_ws :: "jsstring \<Rightarrow> jsstring list" where
  "split_ws s =
     (case dropWhile (\<lambda>c. \<not> is_ws c) s of
        [] \<Rightarrow> [s]
      | c # rest \<Rightarrow> takeWhile (\<lambda>c. \<not> is_ws c) s # split_ws (dropWhile is_ws rest))"
  by pat_completeness auto
termination
proof (relation "measure length")
  fix s :: jsstring and c :: jschar and rest :: jsstring
  assume a: "dropWhile (\<lambda>c. \<not> is_ws c) s = c # rest"
  have "length (dropWhile is_ws rest) \<le> length rest"
    by (rule length_dropWhile_le)
  moreover have "length (c # rest) \<le> length s"
    unfolding a [symmetric] by (rule length_dropWhile_le)
  ultimately show "(dropWhile is_ws rest, s) \<in> measure length"
    by simp
qed simp

text \<open>\<open>.join(' ')\<close>\<close>

fun join_sp :: "jsstring list \<Rightarrow> jsstring" where
  "join_sp [] = []"
| "join_sp [x] = x"
| "join_sp (x # y # ys) = x @ 32 # join_sp (y # ys)"

record fetch_output = titled +
  content :: jsstring
  wordCount :: nat

record tool_output =
  tool_content :: jsstring
  tool_title :: jsstring
  tool_wordCount :: nat

definition failed_to_fetch :: "jsstring \<Rightarrow> nat \<Rightarrow> js_error" where
  "failed_to_fetch u st = Error (js ''Failed to fetch '' @ u @ js '': '' @ show_nat st)"

definition page_title :: "jsstring \<Rightarrow> jsstring \<Rightarrow> jsstring" where
  "page_title html u = (case match_title html of Some t \<Rightarrow> trim t | None \<Rightarrow> u)"

definition fetchStep ::
    "env \<Rightarrow> world \<Rightarrow> with_url \<Rightarrow> world \<times> (js_error + fetch_output)" where
  "fetchStep e w inputData =
     (let w1 = log_call (Fetch (url inputData)) w in
      case http_fetch e (url inputData) of
        Inl err \<Rightarrow> (w1, Inl err)
      | Inr res \<Rightarrow>
          if \<not> res_ok res then (w1, Inl (failed_to_fetch (url inputData) (res_status res)))
          else
            (case res_text res of
               Inl err \<Rightarrow> (w1, Inl err)
             | Inr html \<Rightarrow>
                 (w1, Inr \<lparr>url = url inputData,
                           title = page_title html (url inputData),
                           content = join_sp (take 8000 (split_ws (strip_html html))),
                           wordCount = length (split_ws (strip_html html))\<rparr>)))"

definition fetchPageTool ::
    "env \<Rightarrow> world \<Rightarrow> jsstring \<Rightarrow> world \<times> (js_error + tool_output)" where
  "fetchPageTool e w u =
     (let w1 = log_call (Fetch u) w in
      case http_fetch e u of
        Inl err \<Rightarrow> (w1, Inl err)
      | Inr res \<Rightarrow>
          if \<not> res_ok res then (w1, Inl (failed_to_fetch u (res_status res)))
          else
            (case res_text res of
               Inl err \<Rightarrow> (w1, Inl err)
             | Inr html \<Rightarrow>
                 (w1, Inr \<lparr>tool_content = join_sp (take 8000 (split_ws (strip_html html))),
                           tool_title = page_title html u,
                           tool_wordCount = length (split_ws (strip_html html))\<rparr>)))"

section \<open>JSON values and \<open>JSON.parse\<close>\<close>

text \<open>
  What \<open>JSON.parse\<close> returns is untyped: any value of JSON. A number is modelled by its
  exact value (the runtime rounds it to the nearest double). The fields of an object are
  kept in the order of their first occurrence; a repeated name overwrites.
\<close>

datatype jsval =
    JUndefined
  | JNull
  | JBool bool
  | JNum real
  | JStr jsstring
  | JArr "jsval list"
  | JObj "(jsstring \<times> jsval) list"

fun set_prop :: "jsstring \<Rightarrow> jsval \<Rightarrow> (jsstring \<times> jsval) list \<Rightarrow> (jsstring \<times> jsval) list" where
  "set_prop k v [] = [(k, v)]"
| "set_prop k v ((k', v') # fs) =
     (if k = k' then (k, v) # fs else (k', v') # set_prop k v fs)"

text \<open>
  A property read \<open>v.k\<close>, for a name \<open>k\<close> that no prototype defines (\<open>score\<close> is such a
  name): a \<open>TypeError\<close> on \<open>null\<close> and \<open>undefined\<close>, the field of an object that has it,
  \<open>undefined\<close> otherwise.
\<close>

definition cannot_read :: "jsstring \<Rightarrow> js_error" where
  "cannot_read k = TypeError (js ''Cannot read properties of null (reading '' @ k @ js '')'')"

definition get_prop :: "jsval \<Rightarrow> jsstring \<Rightarrow> js_error + jsval" where
  "get_prop v k =
     (case v of
        JNull \<Rightarrow> Inl (cannot_read k)
      | JUndefined \<Rightarrow> Inl (cannot_read k)
      | JObj fs \<Rightarrow> Inr (case map_of fs k of Some x \<Rightarrow> x | None \<Rightarrow> JUndefined)
      | _ \<Rightarrow> Inr JUndefined)"

definition json_ws :: "jschar \<Rightarrow> bool" where
  "json_ws c \<longleftrightarrow> c = 32 \<or> c = 9 \<or> c = 10 \<or> c = 13"

definition skip_ws :: "jsstring \<Rightarrow> jsstring" where
  "skip_ws s = dropWhile json_ws s"

definition is_digit :: "jschar \<Rightarrow> bool" where
  "is_digit c \<longleftrightarrow> 48 \<le> c \<and> c \<le> 57"

definition hex_val :: "jschar \<Rightarrow> nat option" where
  "hex_val c =
     (if 48 \<le> c \<and> c \<le> 57 then Some (c - 48)
      else if 65 \<le> c \<and> c \<le> 70 then Some (c - 55)
      else if 97 \<le> c \<and> c \<le> 102 then Some (c - 87)
      else None)"

definition hex4 :: "jschar \<Rightarrow> jschar \<Rightarrow> jschar \<Rightarrow> jschar \<Rightarrow> nat option" where
  "hex4 a b c d =
     (case (hex_val a, hex_val b, hex_val c, hex_val d) of
        (Some x, Some y, Some z, Some u) \<Rightarrow> Some (4096 * x + 256 * y + 16 * z + u)
      | _ \<Rightarrow> None)"

text \<open>The character an escape \<open>\c\<close> stands for (\<open>\u\<close> apart).\<close>

definition simple_escape :: "jschar \<Rightarrow> jschar option" where
  "simple_escape c =
     (if c = 34 \<or> c = 92 \<or> c = 47 then Some c
      else if c = 98 then Some 8
      else if c = 102 then Some 12
      else if c = 110 then Some 10
      else if c = 114 then Some 13
      else if c = 116 then Some 9
      else None)"

definition cons_fst :: "'a \<Rightarrow> ('a list \<times> 'b) option \<Rightarrow> ('a list \<times> 'b) option" where
  "cons_fst x r = (case r of None \<Rightarrow> None | Some (xs, rest) \<Rightarrow> Some (x # xs, rest))"

text \<open>A string after its opening quote: its characters and the text after the closing quote.\<close>

fun parse_string :: "jsstring \<Rightarrow> (jsstring \<times> jsstring) option" where
  "parse_string [] = None"
| "parse_string (c # cs) =
     (if c = 34 then Some ([], cs)
      else if c = 92 then
        (case cs of
           [] \<Rightarrow> None
         | e # es \<Rightarrow>
             if e = 117 then
               (case es of
                  a # b # c' # d # rest \<Rightarrow>
                    (case hex4 a b c' d of
                       Some n \<Rightarrow> cons_fst n (parse_string rest)
                     | None \<Rightarrow> None)
                | _ \<Rightarrow> None)
             else
               (case simple_escape e of
                  Some x \<Rightarrow> cons_fst x (parse_string es)
                | None \<Rightarrow> None))
      else if c < 32 then None
      else cons_fst c (parse_string cs))"

definition digits_val :: "jsstring \<Rightarrow> nat" where
  "digits_val ds = foldl (\<lambda>a d. 10 * a + (d - 48)) 0 ds"

text \<open>The fraction of a number: its digits, none when there is no \<open>.\<close>; and the exponent.\<close>

definition parse_frac :: "jsstring \<Rightarrow> (jsstring \<times> jsstring) option" where
  "parse_frac s =
     (case s of
        [] \<Rightarrow> Some ([], s)
      | c # cs \<Rightarrow>
          if c = 46 then
            (if takeWhile is_digit cs = [] then None
             else Some (takeWhile is_digit cs, dropWhile is_digit cs))
          else Some ([], s))"

definition parse_exp_digits :: "bool \<Rightarrow> jsstring \<Rightarrow> (int \<times> jsstring) option" where
  "parse_exp_digits neg s =
     (if takeWhile is_digit s = [] then None
      else Some ((if neg then - int (digits_val (takeWhile is_digit s))
                  else int (digits_val (takeWhile is_digit s))),
                 dropWhile is_digit s))"

definition parse_exp :: "jsstring \<Rightarrow> (int \<times> jsstring) option" where
  "parse_exp s =
     (case s of
        [] \<Rightarrow> Some (0, s)
      | c # cs \<Rightarrow>
          if c = 101 \<or> c = 69 then
            (case cs of
               [] \<Rightarrow> None
             | d # ds \<Rightarrow>
                 if d = 43 then parse_exp_digits False ds
                 else if d = 45 then parse_exp_digits True ds
                 else parse_exp_digits False cs)
          else Some (0, s))"

definition scale10 :: "real \<Rightarrow> int \<Rightarrow> real" where
  "scale10 x ex = (if 0 \<le> ex then x * 10 ^ nat ex else x / 10 ^ nat (- ex))"

definition parse_unsigned :: "jsstring \<Rightarrow> (real \<times> jsstring) option" where
  "parse_unsigned s =
     (let ip = takeWhile is_digit s in
      if ip = [] \<or> (1 < length ip \<and> hd ip = 48) then None
      else
        (case parse_frac (dropWhile is_digit s) of
           None \<Rightarrow> None
         | Some (fp, s2) \<Rightarrow>
             (case parse_exp s2 of
                None \<Rightarrow> None
              | Some (ex, s3) \<Rightarrow>
                  Some (scale10 (real (digits_val ip) + real (digits_val fp) / 10 ^ length fp) ex,
                        s3))))"

definition parse_number :: "jsstring \<Rightarrow> (jsval \<times> jsstring) option" where
  "parse_number s =
     (case s of
        [] \<Rightarrow> None
      | c # cs \<Rightarrow>
          if c = 45 then
            (case parse_unsigned cs of None \<Rightarrow> None | Some (x, r) \<Rightarrow> Some (JNum (- x), r))
          else
            (case parse_unsigned s of None \<Rightarrow> None | Some (x, r) \<Rightarrow> Some (JNum x, r)))"

definition parse_literal :: "jsstring \<Rightarrow> (jsval \<times> jsstring) option" where
  "parse_literal s =
     (if take 4 s = js ''true'' then Some (JBool True, drop 4 s)
      else if take 5 s = js ''false'' then Some (JBool False, drop 5 s)
      else if take 4 s = js ''null'' then Some (JNull, drop 4 s)
      else parse_number s)"

text \<open>
  The grammar of JSON by recursive descent. The first argument is fuel: it bounds the
  depth of the calls. Of two nested calls at least one follows a character that has
  been read, so the fuel \<open>Suc (2 * length s)\<close> that \<open>JSON_parse\<close> gives is not used up on
  a text \<open>s\<close> (\<open>JSON_parse_fuel\<close> below).
\<close>

fun parse_value :: "nat \<Rightarrow> jsstring \<Rightarrow> (jsval \<times> jsstring) option"
  and parse_elements :: "nat \<Rightarrow> jsval list \<Rightarrow> jsstring \<Rightarrow> (jsval \<times> jsstring) option"
  and parse_members ::
    "nat \<Rightarrow> (jsstring \<times> jsval) list \<Rightarrow> jsstring \<Rightarrow> (jsval \<times> jsstring) option" where
  "parse_value n s =
     (if n = 0 then None
      else
        (case skip_ws s of
           [] \<Rightarrow> None
         | c # cs \<Rightarrow>
             if c = 123 then
               (case skip_ws cs of
                  [] \<Rightarrow> None
                | d # ds \<Rightarrow>
                    if d = 125 then Some (JObj [], ds) else parse_members (n - 1) [] (d # ds))
             else if c = 91 then
               (case skip_ws cs of
                  [] \<Rightarrow> None
                | d # ds \<Rightarrow>
                    if d = 93 then Some (JArr [], ds) else parse_elements (n - 1) [] (d # ds))
             else if c = 34 then
               (case parse_string cs of None \<Rightarrow> None | Some (str, r) \<Rightarrow> Some (JStr str, r))
             else parse_literal (c # cs)))"
| "parse_elements n acc s =
     (if n = 0 then None
      else
        (case parse_value (n - 1) s of
           None \<Rightarrow> None
         | Some (v, r) \<Rightarrow>
             (case skip_ws r of
                [] \<Rightarrow> None
              | c # cs \<Rightarrow>
                  if c = 44 then parse_elements (n - 1) (acc @ [v]) cs
                  else if c = 93 then Some (JArr (acc @ [v]), cs)
                  else None)))"
| "parse_members n acc s =
     (if n = 0 then None
      else
        (case skip_ws s of
           [] \<Rightarrow> None
         | c # cs \<Rightarrow>
             if c = 34 then
               (case parse_string cs of
                  None \<Rightarrow> None
                | Some (k, r) \<Rightarrow>
                    (case skip_ws r of
                       [] \<Rightarrow> None
                     | d # ds \<Rightarrow>
                         if d = 58 then
                           (case parse_value (n - 1) ds of
                              None \<Rightarrow> None
                            | Some (v, r2) \<Rightarrow>
                                (case skip_ws r2 of
                                   [] \<Rightarrow> None
                                 | x # xs \<Rightarrow>
                                     if x = 44 then parse_members (n - 1) (set_prop k v acc) xs
                                     else if x = 125 then Some (JObj (set_prop k v acc), xs)
                                     else None))
                         else None))
             else None))"

text \<open>\<open>JSON.parse(text)\<close>: \<open>None\<close> where it throws a \<open>SyntaxError\<close>.\<close>

definition JSON_parse :: "jsstring \<Rightarrow> jsval option" where
  "JSON_parse s =
     (case parse_value (Suc (2 * length s)) s of
        None \<Rightarrow> None
      | Some (v, r) \<Rightarrow> if skip_ws r = [] then Some v else None)"

section \<open>The critique stage\<close>

record critique_input = titled +
  text' :: jsstring

definition critique_prompt :: "critique_input \<Rightarrow> jsstring" where
  "critique_prompt inputData =
     js ''Please critique this summary of '' @ [34] @ title inputData @ [34] @ js '':''
       @ [10, 10] @ text' inputData"

definition critique_fallback :: jsval where
  "critique_fallback =
     JObj [(js ''score'', JNum 5),
           (js ''issues'', JArr [JStr (js ''Could not parse critique'')]),
           (js ''suggestion'', JStr [])]"

text \<open>
  The agent \<open>critic\<close> is registered in \<open>index.ts\<close>, so \<open>mastra.getAgent('critic')\<close> returns
  it. What the stage returns is the parsed value itself, whatever its shape.
\<close>

definition critiqueStep ::
    "env \<Rightarrow> world \<Rightarrow> critique_input \<Rightarrow> world \<times> (js_error + jsval)" where
  "critiqueStep e w inputData =
     (let w1 = log_call (CriticGenerate (critique_prompt inputData)) w in
      case critic_generate e (critique_prompt inputData) of
        Inl err \<Rightarrow> (w1, Inl err)
      | Inr response_text \<Rightarrow>
          (w1, Inr (case JSON_parse response_text of
                      Some v \<Rightarrow> v
                    | None \<Rightarrow> critique_fallback)))"

section \<open>The summarizer stage\<close>

text \<open>
  The type the source reads the summarizer's output at: \<open>{ text?: string }\<close>.
\<close>

record summarizer_output =
  text_opt :: "jsstring option"

text \<open>
  Modelled from the spec: the stage \<open>createStep(summarizerAgent)\<close> is built by the framework,
  whose code is not in the repository. After the collaborator table of the spec
  (Summarizer, summarize, \<open>{prompt text}\<close> to \<open>{summary text}\<close>, failing with a generation
  error): the stage hands the prompt to the agent and returns its text.
\<close>

definition summarizeStep ::
    "env \<Rightarrow> world \<Rightarrow> jsstring \<Rightarrow> world \<times> (js_error + summarizer_output)" where
  "summarizeStep e w prompt =
     (let w1 = log_call (SummarizerGenerate prompt) w in
      case summarizer_generate e prompt of
        Inl err \<Rightarrow> (w1, Inl err)
      | Inr t \<Rightarrow> (w1, Inr \<lparr>text_opt = Some t\<rparr>))"

section \<open>The mapping functions\<close>

text \<open>
  What a stage records and what a mapping returns, by shape. The run context is the log
  of the outputs recorded so far, read by stage name.
\<close>

datatype val =
    VInput with_url
  | VFetch fetch_output
  | VPrompt jsstring
  | VSummary summarizer_output
  | VCritiqueIn critique_input
  | VCritique jsval
  | VSaveIn "jsval save_input"
  | VSaveOut save_output

type_synonym run_context = "(string \<times> val) list"

definition getStepResult :: "run_context \<Rightarrow> string \<Rightarrow> val option" where
  "getStepResult ctx stepId = map_of ctx stepId"

text \<open>\<open>getStepResult<FetchStepOutput>('fetch-page')\<close> and \<open>getStepResult<{ text?: string }>('summarizer')\<close>.\<close>

definition fetch_result :: "run_context \<Rightarrow> fetch_output option" where
  "fetch_result ctx =
     (case getStepResult ctx ''fetch-page'' of Some (VFetch f) \<Rightarrow> Some f | _ \<Rightarrow> None)"

definition summarizer_result :: "run_context \<Rightarrow> summarizer_output option" where
  "summarizer_result ctx =
     (case getStepResult ctx ''summarizer'' of Some (VSummary x) \<Rightarrow> Some x | _ \<Rightarrow> None)"

text \<open>The first mapping: the prompt of the summarizer, from the output of the fetch stage.\<close>

definition map_fetch_to_summarize :: "fetch_output \<Rightarrow> jsstring" where
  "map_fetch_to_summarize inputData =
     js ''Summarize the following article titled '' @ [34] @ title inputData @ [34] @ js '':''
       @ [10, 10] @ content inputData"

text \<open>
  The second mapping. \<open>JSON.stringify(inputData)\<close> is reached when \<open>text\<close> is no string; at
  the type \<open>{ text?: string }\<close> that is the object without the field, which prints as
  \<open>{}\<close>. A step result that is absent is \<open>null\<close>, and reading its \<open>title\<close> throws.
\<close>

definition map_summarize_to_critique ::
    "summarizer_output \<Rightarrow> run_context \<Rightarrow> js_error + critique_input" where
  "map_summarize_to_critique inputData ctx =
     (let t = (case text_opt inputData of Some str \<Rightarrow> str | None \<Rightarrow> js ''{}'') in
      case fetch_result ctx of
        None \<Rightarrow> Inl (cannot_read (js ''title''))
      | Some f \<Rightarrow> Inr \<lparr>url = url f, title = title f, text' = t\<rparr>)"

text \<open>
  The third mapping: \<open>inputData.score\<close>, \<open>summarize.text ?? ''\<close>, \<open>fetch.title\<close> and
  \<open>fetch.url\<close>, evaluated in this order.
\<close>

definition map_critique_to_save ::
    "jsval \<Rightarrow> run_context \<Rightarrow> js_error + jsval save_input" where
  "map_critique_to_save inputData ctx =
     (case get_prop inputData (js ''score'') of
        Inl err \<Rightarrow> Inl err
      | Inr sc \<Rightarrow>
          (case summarizer_result ctx of
             None \<Rightarrow> Inl (cannot_read (js ''text''))
           | Some summarize \<Rightarrow>
               (case fetch_result ctx of
                  None \<Rightarrow> Inl (cannot_read (js ''title''))
                | Some f \<Rightarrow>
                    Inr \<lparr>url = url f, title = title f, score = sc,
                         summary = (case text_opt summarize of Some str \<Rightarrow> str | None \<Rightarrow> [])\<rparr>)))"

section \<open>The orchestrator\<close>

text \<open>
  Modelled from the spec: \<open>createWorkflow\<close>, \<open>then\<close>, \<open>map\<close>, \<open>commit\<close> and the run of a
  workflow belong to the framework, whose code is not in the repository. After the data
  model and the execution algorithm of the spec: a stage is a name, a declared input
  and output shape and an execution function; a pipeline is the ordered list of the
  stages, each with the mapping that precedes it, if any; a run holds the initial input,
  the log of the outputs recorded, the status and the failure. \<open>invoked\<close> is the
  instrumentation the spec tests with: the stages whose execution function was called.
  The cancellation signal of the spec is never raised here.
\<close>

record stage =
  name :: string
  input_shape :: "val \<Rightarrow> bool"
  output_shape :: "val \<Rightarrow> bool"
  execute :: "env \<Rightarrow> world \<Rightarrow> val \<Rightarrow> run_context \<Rightarrow> world \<times> (js_error + val)"

type_synonym mapping = "val \<Rightarrow> run_context \<Rightarrow> js_error + val"

type_synonym pipeline = "(mapping option \<times> stage) list"

datatype failure =
    StageError string js_error
  | MappingError string string js_error

datatype run_status = in_progress | succeeded | failed | cancelled

record run =
  initial_input :: val
  output_log :: run_context
  status :: run_status
  failure :: "failure option"
  invoked :: "string list"

definition shape_violation :: js_error where
  "shape_violation = TypeError (js ''input shape violation'')"

definition apply_mapping :: "mapping option \<Rightarrow> val \<Rightarrow> run_context \<Rightarrow> js_error + val" where
  "apply_mapping m v ctx = (case m of None \<Rightarrow> Inr v | Some f \<Rightarrow> f v ctx)"

text \<open>
  Modelled from the spec: the execution algorithm. For each stage in declared order: the
  mapping before it, if any, is applied to the previous output and the run context, and
  a mapping failure or an input that violates the declared shape of the stage fails the
  run with a \<open>MappingError\<close> naming the two adjacent stages; the stage is executed, and
  its failure fails the run with a \<open>StageError\<close> naming it; its output is appended to the
  log. After the last stage the run has succeeded.
\<close>

fun run_stages ::
    "env \<Rightarrow> pipeline \<Rightarrow> string \<Rightarrow> val \<Rightarrow> world \<times> run \<Rightarrow> world \<times> run" where
  "run_stages e [] prev v (w, r) = (w, r\<lparr>status := succeeded\<rparr>)"
| "run_stages e ((m, s) # rest) prev v (w, r) =
     (case apply_mapping m v (output_log r) of
        Inl err \<Rightarrow> (w, r\<lparr>status := failed, failure := Some (MappingError prev (name s) err)\<rparr>)
      | Inr x \<Rightarrow>
          if \<not> input_shape s x then
            (w, r\<lparr>status := failed,
                  failure := Some (MappingError prev (name s) shape_violation)\<rparr>)
          else
            (case execute s e w x (output_log r) of
               (w', Inl err) \<Rightarrow>
                 (w', r\<lparr>status := failed, failure := Some (StageError (name s) err),
                        invoked := invoked r @ [name s]\<rparr>)
             | (w', Inr out) \<Rightarrow>
                 run_stages e rest (name s) out
                   (w', r\<lparr>output_log := output_log r @ [(name s, out)],
                          invoked := invoked r @ [name s]\<rparr>)))"

definition new_run :: "val \<Rightarrow> run" where
  "new_run input =
     \<lparr>initial_input = input, output_log = [], status = in_progress, failure = None,
      invoked = []\<rparr>"

definition run_pipeline :: "env \<Rightarrow> pipeline \<Rightarrow> world \<Rightarrow> val \<Rightarrow> world \<times> run" where
  "run_pipeline e p w input = run_stages e p ''input'' input (w, new_run input)"

text \<open>
  Modelled from the spec: the terminal output of a run that succeeded is its last
  recorded output.
\<close>

definition terminalOutput :: "run \<Rightarrow> val option" where
  "terminalOutput r =
     (if status r = succeeded \<and> output_log r \<noteq> [] then Some (snd (last (output_log r)))
      else None)"

section \<open>The workflow\<close>

text \<open>
  The stages of \<open>summarizeWorkflow\<close>, each with the \<open>id\<close> and the schemas the source
  declares, and the workflow as the source composes it:
  \<open>.then(fetchStep).map(...).then(summarizeStep).map(...).then(critiqueStep).map(...)
  .then(conditionalSaveStep)\<close>.
\<close>

definition lift_result :: "('a \<Rightarrow> val) \<Rightarrow> world \<times> (js_error + 'a) \<Rightarrow> world \<times> (js_error + val)" where
  "lift_result f x = (fst x, map_sum id f (snd x))"

definition stage_fetch :: stage where
  "stage_fetch =
     \<lparr>name = ''fetch-page'',
      input_shape = (\<lambda>v. case v of VInput i \<Rightarrow> True | _ \<Rightarrow> False),
      output_shape = (\<lambda>v. case v of VFetch f \<Rightarrow> True | _ \<Rightarrow> False),
      execute = (\<lambda>e w v ctx.
        case v of
          VInput i \<Rightarrow> lift_result VFetch (fetchStep e w i)
        | _ \<Rightarrow> (w, Inl shape_violation))\<rparr>"

definition stage_summarize :: stage where
  "stage_summarize =
     \<lparr>name = ''summarizer'',
      input_shape = (\<lambda>v. case v of VPrompt p \<Rightarrow> True | _ \<Rightarrow> False),
      output_shape = (\<lambda>v. case v of VSummary x \<Rightarrow> text_opt x \<noteq> None | _ \<Rightarrow> False),
      execute = (\<lambda>e w v ctx.
        case v of
          VPrompt p \<Rightarrow> lift_result VSummary (summarizeStep e w p)
        | _ \<Rightarrow> (w, Inl shape_violation))\<rparr>"

text \<open>The output schema of the critique stage: \<open>{score: number, issues: string[], suggestion: string}\<close>.\<close>

definition is_number :: "jsval \<Rightarrow> bool" where
  "is_number v = (case v of JNum x \<Rightarrow> True | _ \<Rightarrow> False)"

definition is_string :: "jsval \<Rightarrow> bool" where
  "is_string v = (case v of JStr x \<Rightarrow> True | _ \<Rightarrow> False)"

definition is_string_array :: "jsval \<Rightarrow> bool" where
  "is_string_array v = (case v of JArr xs \<Rightarrow> list_all is_string xs | _ \<Rightarrow> False)"

definition has_prop :: "jsval \<Rightarrow> jsstring \<Rightarrow> (jsval \<Rightarrow> bool) \<Rightarrow> bool" where
  "has_prop v k P =
     (case v of
        JObj fs \<Rightarrow> (case map_of fs k of Some x \<Rightarrow> P x | None \<Rightarrow> False)
      | _ \<Rightarrow> False)"

definition critique_output_shape :: "jsval \<Rightarrow> bool" where
  "critique_output_shape v \<longleftrightarrow>
     has_prop v (js ''score'') is_number \<and> has_prop v (js ''issues'') is_string_array
       \<and> has_prop v (js ''suggestion'') is_string"

definition stage_critique :: stage where
  "stage_critique =
     \<lparr>name = ''critique'',
      input_shape = (\<lambda>v. case v of VCritiqueIn i \<Rightarrow> True | _ \<Rightarrow> False),
      output_shape = (\<lambda>v. case v of VCritique j \<Rightarrow> critique_output_shape j | _ \<Rightarrow> False),
      execute = (\<lambda>e w v ctx.
        case v of
          VCritiqueIn i \<Rightarrow> lift_result VCritique (critiqueStep e w i)
        | _ \<Rightarrow> (w, Inl shape_violation))\<rparr>"

text \<open>
  The input schema of the last stage wants \<open>score\<close> to be a number; the stage body then
  reads it as one.
\<close>

definition checked_save_input :: "jsval save_input \<Rightarrow> real save_input option" where
  "checked_save_input i =
     (case score i of
        JNum x \<Rightarrow> Some \<lparr>url = url i, title = title i, score = x, summary = summary i\<rparr>
      | _ \<Rightarrow> None)"

definition stage_conditional_save :: stage where
  "stage_conditional_save =
     \<lparr>name = ''conditional-save'',
      input_shape = (\<lambda>v. case v of VSaveIn i \<Rightarrow> checked_save_input i \<noteq> None | _ \<Rightarrow> False),
      output_shape = (\<lambda>v. case v of VSaveOut out \<Rightarrow> True | _ \<Rightarrow> False),
      execute = (\<lambda>e w v ctx.
        case v of
          VSaveIn i \<Rightarrow>
            (case checked_save_input i of
               Some inputData \<Rightarrow> lift_result VSaveOut (conditionalSaveStep e w inputData)
             | None \<Rightarrow> (w, Inl shape_violation))
        | _ \<Rightarrow> (w, Inl shape_violation))\<rparr>"

definition mapping_fetch_to_summarize :: mapping where
  "mapping_fetch_to_summarize v ctx =
     (case v of VFetch f \<Rightarrow> Inr (VPrompt (map_fetch_to_summarize f)) | _ \<Rightarrow> Inl shape_violation)"

definition mapping_summarize_to_critique :: mapping where
  "mapping_summarize_to_critique v ctx =
     (case v of
        VSummary x \<Rightarrow> map_sum id VCritiqueIn (map_summarize_to_critique x ctx)
      | _ \<Rightarrow> Inl shape_violation)"

definition mapping_critique_to_save :: mapping where
  "mapping_critique_to_save v ctx =
     (case v of
        VCritique j \<Rightarrow> map_sum id VSaveIn (map_critique_to_save j ctx)
      | _ \<Rightarrow> Inl shape_violation)"

definition summarizeWorkflow :: pipeline where
  "summarizeWorkflow =
     [(None, stage_fetch),
      (Some mapping_fetch_to_summarize, stage_summarize),
      (Some mapping_summarize_to_critique, stage_critique),
      (Some mapping_critique_to_save, stage_conditional_save)]"

definition run_workflow :: "env \<Rightarrow> world \<Rightarrow> jsstring \<Rightarrow> world \<times> run" where
  "run_workflow e w u = run_pipeline e summarizeWorkflow w (VInput \<lparr>url = u\<rparr>)"

section \<open>A concrete environment\<close>

text \<open>
  The worked examples below run in this environment: every page is \<open>example_html\<close>, the
  summarizer answers with one sentence, the critic with the given text, the file system
  accepts every call, and the case table is that of the ASCII letters.
\<close>

definition ascii_lower :: "jschar \<Rightarrow> jschar" where
  "ascii_lower c = (if 65 \<le> c \<and> c \<le> 90 then c + 32 else c)"

definition example_html :: jsstring where
  "example_html =
     js ''<html><head><title> Example </title></head><body><p>Hello world</p></body></html>''"

definition example_env :: "jsstring \<Rightarrow> env" where
  "example_env critic_text =
     \<lparr>http_fetch = (\<lambda>u. Inr \<lparr>res_ok = True, res_status = 200, res_text = Inr example_html\<rparr>),
      summarizer_generate = (\<lambda>p. Inr (js ''A short summary.'')),
      critic_generate = (\<lambda>p. Inr critic_text),
      fs_mkdir = (\<lambda>d. None),
      fs_writeFile = (\<lambda>p c. None),
      toLowerCase = map ascii_lower,
      Date_now = 1772032983320\<rparr>"

definition empty_world :: world where
  "empty_world = \<lparr>calls = [], files = Map.empty\<rparr>"

definition example_save_input :: "real \<Rightarrow> real save_input" where
  "example_save_input x =
     \<lparr>url = js ''https://example.com/a'', title = js ''Example'', score = x,
      summary = js ''A short summary.''\<rparr>"

definition example_critique_input :: critique_input where
  "example_critique_input =
     \<lparr>url = js ''https://example.com/a'', title = js ''Example'',
      text' = js ''A short summary.''\<rparr>"

definition example_fetch_output :: fetch_output where
  "example_fetch_output =
     \<lparr>url = js ''https://example.com/a'', title = js ''Example'',
      content = js ''Example Hello world'', wordCount = 3\<rparr>"

text \<open>A run of the workflow after its first two stages.\<close>

definition example_run :: run where
  "example_run =
     \<lparr>initial_input = VInput \<lparr>url = js ''https://example.com/a''\<rparr>,
      output_log =
        [(''fetch-page'', VFetch example_fetch_output),
         (''summarizer'', VSummary \<lparr>text_opt = Some (js ''A short summary.'')\<rparr>)],
      status = in_progress, failure = None,
      invoked = [''fetch-page'', ''summarizer'']\<rparr>"



lemmas json_simps =
  JSON_parse_def skip_ws_def json_ws_def parse_literal_def parse_number_def parse_unsigned_def
  parse_frac_def parse_exp_def parse_exp_digits_def scale10_def digits_val_def is_digit_def
  cons_fst_def simple_escape_def hex4_def hex_val_def

lemmas example_simps =
  example_env_def empty_world_def example_save_input_def js_def ascii_lower_def is_slug_char_def
  save_fileName_def path_join_summaries_def summaries_dir_def show_int_def save_content_def
  log_call_def

section \<open>The vocabulary of the properties\<close>

subsection \<open>Titles and words\<close>

text \<open>
  A parseable title element, as the expression of the source reads one: the characters
  \<open><title\<close> in any letter case, then any characters but \<open>>\<close>, a \<open>>\<close>, a text \<open>t\<close> that is not
  empty and has no \<open><\<close>, and \<open></title>\<close> in any letter case.
\<close>

definition is_title_element :: "jsstring \<Rightarrow> jsstring \<Rightarrow> jsstring \<Rightarrow> jsstring \<Rightarrow> bool" where
  "is_title_element op attrs t cl \<longleftrightarrow>
     map upper op = map upper (js ''<title'') \<and> 62 \<notin> set attrs \<and> t \<noteq> [] \<and> 60 \<notin> set t
       \<and> map upper cl = map upper (js ''</title>'')"

text \<open>The offset of the leftmost match, for the worked example.\<close>

fun first_title_offset :: "jsstring \<Rightarrow> nat option" where
  "first_title_offset [] = None"
| "first_title_offset (c # cs) =
     (case match_title_at (c # cs) of
        Some t \<Rightarrow> Some 0
      | None \<Rightarrow> map_option Suc (first_title_offset cs))"

text \<open>
  The words of a text, read independently of the source: the maximal runs of characters
  that are not white space.
\<close>

function words_of :: "jsstring \<Rightarrow> jsstring list" where
  "words_of s =
     (case dropWhile is_ws s of
        [] \<Rightarrow> []
      | c # cs \<Rightarrow>
          takeWhile (\<lambda>x. \<not> is_ws x) (c # cs) # words_of (dropWhile (\<lambda>x. \<not> is_ws x) (c # cs)))"
  by pat_completeness auto
termination
proof (relation "measure length")
  fix s :: jsstring and c :: jschar and cs :: jsstring
  assume a: "dropWhile is_ws s = c # cs"
  then have "\<not> is_ws c"
    using hd_dropWhile [of is_ws s] by simp
  then have "dropWhile (\<lambda>x. \<not> is_ws x) (c # cs) = dropWhile (\<lambda>x. \<not> is_ws x) cs"
    by simp
  moreover have "length (dropWhile (\<lambda>x. \<not> is_ws x) cs) \<le> length cs"
    by (rule length_dropWhile_le)
  moreover have "length (c # cs) \<le> length s"
    unfolding a [symmetric] by (rule length_dropWhile_le)
  ultimately show "(dropWhile (\<lambda>x. \<not> is_ws x) (c # cs), s) \<in> measure length"
    by simp
qed simp

text \<open>A text with no white space at either end, as \<open>trim\<close> leaves it.\<close>

definition trimmed :: "jsstring \<Rightarrow> bool" where
  "trimmed s \<longleftrightarrow> s = [] \<or> (\<not> is_ws (hd s) \<and> \<not> is_ws (last s))"

text \<open>A word: not empty, and free of white space.\<close>

definition is_word :: "jsstring \<Rightarrow> bool" where
  "is_word w \<longleftrightarrow> w \<noteq> [] \<and> list_all (\<lambda>c. \<not> is_ws c) w"

subsection \<open>Runs of the workflow\<close>

text \<open>The names of the stages of a pipeline, in declared order.\<close>

definition stage_names :: "pipeline \<Rightarrow> string list" where
  "stage_names p = map (\<lambda>ms. name (snd ms)) p"

definition workflow_stage_names :: "string list" where
  "workflow_stage_names = [''fetch-page'', ''summarizer'', ''critique'', ''conditional-save'']"

text \<open>
  The input that the second mapping hands to the critique stage, and the input that the
  third mapping hands to the conditional-save stage once the score is known to be a number,
  from the outputs of the fetch stage and of the summarizer.
\<close>

definition critique_input_of :: "fetch_output \<Rightarrow> summarizer_output \<Rightarrow> critique_input" where
  "critique_input_of f sm =
     \<lparr>url = url f, title = title f,
      text' = (case text_opt sm of Some str \<Rightarrow> str | None \<Rightarrow> js ''{}'')\<rparr>"

definition save_input_of :: "fetch_output \<Rightarrow> summarizer_output \<Rightarrow> real \<Rightarrow> real save_input" where
  "save_input_of f sm x =
     \<lparr>url = url f, title = title f, score = x,
      summary = (case text_opt sm of Some str \<Rightarrow> str | None \<Rightarrow> [])\<rparr>"

text \<open>A run of the workflow on a url, with its log, status, failure and invoked stages.\<close>

definition run_record ::
    "jsstring \<Rightarrow> run_context \<Rightarrow> run_status \<Rightarrow> failure option \<Rightarrow> string list \<Rightarrow> run" where
  "run_record u outputs st fl names =
     \<lparr>initial_input = VInput \<lparr>url = u\<rparr>, output_log = outputs, status = st, failure = fl,
      invoked = names\<rparr>"

subsection \<open>Pages, answers and environments of the worked examples\<close>

definition untitled_html :: jsstring where
  "untitled_html = js ''<p>Hello</p>''"

text \<open>A page of 8001 words.\<close>

definition many_words_html :: jsstring where
  "many_words_html = join_sp (replicate 8001 (js ''a''))"

text \<open>The environment that serves a given page.\<close>

definition page_env :: "jsstring \<Rightarrow> env" where
  "page_env html =
     (example_env []) \<lparr>http_fetch :=
        (\<lambda>u. Inr \<lparr>res_ok = True, res_status = 200, res_text = Inr html\<rparr>)\<rparr>"

text \<open>An environment in which every page answers 404.\<close>

definition env_404 :: env where
  "env_404 =
     (example_env []) \<lparr>http_fetch :=
        (\<lambda>u. Inr \<lparr>res_ok = False, res_status = 404, res_text = Inr []\<rparr>)\<rparr>"

definition example_url :: jsstring where
  "example_url = js ''https://example.com/a''"

text \<open>Two answers of the critic, with scores 8 and 3, and the values they parse to.\<close>

definition critic_text_8 :: jsstring where
  \<open>critic_text_8 = js ''{"score": 8, "issues": ["long"], "suggestion": "trim"}''\<close>

definition critic_text_3 :: jsstring where
  \<open>critic_text_3 = js ''{"score": 3, "issues": [], "suggestion": ""}''\<close>

definition critique_8 :: jsval where
  "critique_8 =
     JObj [(js ''score'', JNum 8), (js ''issues'', JArr [JStr (js ''long'')]),
           (js ''suggestion'', JStr (js ''trim''))]"

definition critique_3 :: jsval where
  "critique_3 =
     JObj [(js ''score'', JNum 3), (js ''issues'', JArr []), (js ''suggestion'', JStr [])]"

text \<open>The answer of the summarizer in the concrete environment.\<close>

definition example_summary :: summarizer_output where
  "example_summary = \<lparr>text_opt = Some (js ''A short summary.'')\<rparr>"

text \<open>The world after the first three stages of a run in the concrete environment.\<close>

definition world_after_critique :: world where
  "world_after_critique =
     \<lparr>calls =
        [Fetch example_url,
         SummarizerGenerate (map_fetch_to_summarize example_fetch_output),
         CriticGenerate (critique_prompt example_critique_input)],
      files = Map.empty\<rparr>"

text \<open>The file that a run with a score of 8 writes in the concrete environment.\<close>

definition example_path :: jsstring where
  "example_path = js ''workspace/summaries/example-1772032983320.md''"

definition example_file :: jsstring where
  "example_file =
     js ''# Example'' @ [10, 10] @ js ''> Source: https://example.com/a'' @ [10, 10]
       @ js ''A short summary.'' @ [10]"

section \<open>Facts about the run context\<close>

lemma apply_mapping_simps [simp]:
  "apply_mapping None v ctx = Inr v"
  "apply_mapping (Some f) v ctx = f v ctx"
  by (simp_all add: apply_mapping_def)

lemma fetch_result_append: "fetch_result ctx = Some f \<Longrightarrow> fetch_result (ctx @ extra) = Some f"
  by (auto simp: fetch_result_def getStepResult_def split: option.splits val.splits)

lemma summarizer_result_append:
  "summarizer_result ctx = Some x \<Longrightarrow> summarizer_result (ctx @ extra) = Some x"
  by (auto simp: summarizer_result_def getStepResult_def split: option.splits val.splits)

section \<open>The fuel of the parser\<close>

text \<open>
  Every successful call of the parser reads at least one character. Hence the fuel that
  \<open>JSON_parse\<close> gives is never used up: with any larger fuel the parser returns the same,
  so that \<open>None\<close> is a syntax error of the text and nothing else.
\<close>

lemma length_skip_ws: "length (skip_ws s) \<le> length s"
  by (simp add: skip_ws_def length_dropWhile_le)

lemma skip_ws_Cons_length: "skip_ws s = c # cs \<Longrightarrow> length cs < length s"
  using length_skip_ws [of s] by simp

lemma length_dropWhile_less: "takeWhile P s \<noteq> [] \<Longrightarrow> length (dropWhile P s) < length s"
  using arg_cong [OF takeWhile_dropWhile_id [of P s], of length] by (cases "takeWhile P s") auto

lemma parse_string_length: "parse_string s = Some (k, r) \<Longrightarrow> length r < length s"
proof (induction "length s" arbitrary: s k r rule: less_induct)
  case less
  from less.prems obtain c cs where s: "s = c # cs"
    by (cases s) auto
  from less.prems have "r = cs \<or> (\<exists>t k'. parse_string t = Some (k', r) \<and> length t < length s)"
    unfolding s by (fastforce simp: cons_fst_def split: if_splits option.splits list.splits)
  then show ?case
  proof
    assume "r = cs"
    then show ?thesis
      by (simp add: s)
  next
    assume "\<exists>t k'. parse_string t = Some (k', r) \<and> length t < length s"
    then obtain t k' where t: "parse_string t = Some (k', r)" and lt: "length t < length s"
      by blast
    from less.hyps [OF lt t] lt show ?thesis
      by simp
  qed
qed

lemma parse_frac_length: "parse_frac s = Some (fp, r) \<Longrightarrow> length r \<le> length s"
  by (auto simp: parse_frac_def split: list.splits if_splits
      intro: le_SucI length_dropWhile_le)

lemma parse_exp_digits_length: "parse_exp_digits neg s = Some (ex, r) \<Longrightarrow> length r \<le> length s"
  by (auto simp: parse_exp_digits_def split: if_splits intro: length_dropWhile_le)

lemma parse_exp_length: "parse_exp s = Some (ex, r) \<Longrightarrow> length r \<le> length s"
  by (auto simp: parse_exp_def split: list.splits if_splits
      dest!: parse_exp_digits_length)

lemma parse_unsigned_length: "parse_unsigned s = Some (x, r) \<Longrightarrow> length r < length s"
proof -
  assume a: "parse_unsigned s = Some (x, r)"
  then have ip: "takeWhile is_digit s \<noteq> []"
    by (auto simp: parse_unsigned_def Let_def split: if_splits)
  from a obtain fp s2 ex where f: "parse_frac (dropWhile is_digit s) = Some (fp, s2)"
    and e: "parse_exp s2 = Some (ex, r)"
    by (auto simp: parse_unsigned_def Let_def split: if_splits option.splits)
  from parse_frac_length [OF f] parse_exp_length [OF e] length_dropWhile_less [OF ip]
  show ?thesis
    by simp
qed

lemma parse_number_length: "parse_number s = Some (v, r) \<Longrightarrow> length r < length s"
  by (auto simp: parse_number_def split: list.splits if_splits option.splits
      dest!: parse_unsigned_length)

lemma take_eq_length: "take n s = t \<Longrightarrow> length t = n \<Longrightarrow> n \<le> length s"
  by (metis length_take min.cobounded1 min_def nat_le_linear)

lemma parse_literal_length: "parse_literal s = Some (v, r) \<Longrightarrow> length r < length s"
proof (cases "take 4 s = js ''true'' \<or> take 5 s = js ''false'' \<or> take 4 s = js ''null''")
  case False
  assume "parse_literal s = Some (v, r)"
  with False have "parse_number s = Some (v, r)"
    by (simp add: parse_literal_def)
  then show ?thesis
    by (rule parse_number_length)
next
  case True
  assume a: "parse_literal s = Some (v, r)"
  from True have "4 \<le> length s"
    by (auto dest!: take_eq_length simp: js_def)
  moreover from a True have "r = drop 4 s \<or> r = drop 5 s"
    by (auto simp: parse_literal_def split: if_splits)
  ultimately show ?thesis
    by auto
qed


lemma parse_length:
  "(parse_value n s = Some (v, r) \<longrightarrow> length r < length s)
   \<and> (parse_elements n acc s = Some (v, r) \<longrightarrow> length r < length s)
   \<and> (parse_members n facc s = Some (v, r) \<longrightarrow> length r < length s)"
proof (induction n arbitrary: s acc facc v r)
  case 0
  show ?case
    by (simp add: parse_value.simps [of 0] parse_elements.simps [of 0] parse_members.simps [of 0]
        del: parse_value.simps parse_elements.simps parse_members.simps)
next
  case (Suc n)
  note [simp del] = parse_value.simps parse_elements.simps parse_members.simps
  note ihv = Suc.IH [THEN conjunct1, rule_format]
  note ihe = Suc.IH [THEN conjunct2, THEN conjunct1, rule_format]
  note ihm = Suc.IH [THEN conjunct2, THEN conjunct2, rule_format]
  have pv: "length r < length s" if a: "parse_value (Suc n) s = Some (v, r)"
  proof -
    note a' = a [unfolded parse_value.simps [of "Suc n" s], simplified]
    from a' obtain c cs where sk: "skip_ws s = c # cs"
      by (auto split: list.splits)
    have cs: "length cs < length s"
      using sk by (rule skip_ws_Cons_length)
    have lit: "length r < length s" if "parse_literal (c # cs) = Some (v, r)"
      using parse_literal_length [OF that] length_skip_ws [of s] by (simp add: sk)
    have nested: "length r < length s"
      if "skip_ws cs = d # ds" and "r = ds \<or> parse_members n [] (d # ds) = Some (v, r)
          \<or> parse_elements n [] (d # ds) = Some (v, r)" for d ds
    proof -
      from that(1) have "length (d # ds) \<le> length cs"
        using length_skip_ws [of cs] by simp
      with that(2) ihm [of "[]" "d # ds" v r] ihe [of "[]" "d # ds" v r] cs show ?thesis
        by auto
    qed
    from a' sk show ?thesis
      by (auto split: if_splits list.splits option.splits
          dest!: parse_string_length intro: lit nested less_trans [OF _ cs])
  qed
  have pe: "length r < length s" if a: "parse_elements (Suc n) acc s = Some (v, r)"
  proof -
    from a [unfolded parse_elements.simps [of "Suc n" acc s], simplified]
    obtain v1 r1 c cs where p: "parse_value n s = Some (v1, r1)" and sk: "skip_ws r1 = c # cs"
      and rest: "(c = 44 \<and> parse_elements n (acc @ [v1]) cs = Some (v, r)) \<or> (c = 93 \<and> r = cs)"
      by (auto split: option.splits list.splits if_splits)
    from ihv [OF p] skip_ws_Cons_length [OF sk] have "length cs < length s"
      by simp
    with rest ihe [of "acc @ [v1]" cs v r] show ?thesis
      by auto
  qed
  have pm: "length r < length s" if a: "parse_members (Suc n) facc s = Some (v, r)"
  proof -
    from a [unfolded parse_members.simps [of "Suc n" facc s], simplified]
    obtain cs k r1 ds v1 r2 x xs where sk: "skip_ws s = 34 # cs"
      and str: "parse_string cs = Some (k, r1)" and sk1: "skip_ws r1 = 58 # ds"
      and p: "parse_value n ds = Some (v1, r2)" and sk2: "skip_ws r2 = x # xs"
      and rest: "(x = 44 \<and> parse_members n (set_prop k v1 facc) xs = Some (v, r))
          \<or> (x = 125 \<and> r = xs)"
      by (auto split: option.splits list.splits if_splits)
    from skip_ws_Cons_length [OF sk] parse_string_length [OF str] skip_ws_Cons_length [OF sk1]
      ihv [OF p] skip_ws_Cons_length [OF sk2]
    have "length xs < length s"
      by simp
    with rest ihm [of "set_prop k v1 facc" xs v r] show ?thesis
      by auto
  qed
  from pv pe pm show ?case
    by blast
qed


lemmas parse_length_value = parse_length [THEN conjunct1, rule_format]

lemma parse_fuel:
  "(2 * length s < n \<and> 2 * length s < m \<longrightarrow> parse_value n s = parse_value m s)
   \<and> (2 * length s + 1 < n \<and> 2 * length s + 1 < m \<longrightarrow>
        parse_elements n acc s = parse_elements m acc s)
   \<and> (2 * length s + 1 < n \<and> 2 * length s + 1 < m \<longrightarrow>
        parse_members n facc s = parse_members m facc s)"
proof (induction n arbitrary: m s acc facc)
  case 0
  show ?case
    by simp
next
  case (Suc n)
  note [simp del] = parse_value.simps parse_elements.simps parse_members.simps
  note ihv = Suc.IH [THEN conjunct1, rule_format]
  note ihe = Suc.IH [THEN conjunct2, THEN conjunct1, rule_format]
  note ihm = Suc.IH [THEN conjunct2, THEN conjunct2, rule_format]
  have pv: "parse_value (Suc n) s = parse_value m s"
    if n: "2 * length s < Suc n" and m: "2 * length s < m"
  proof -
    from m obtain m' where m': "m = Suc m'"
      by (cases m) auto
    have inner: "parse_elements n [] (d # ds) = parse_elements m' [] (d # ds)"
      "parse_members n [] (d # ds) = parse_members m' [] (d # ds)"
      if "skip_ws s = c # cs" and "skip_ws cs = d # ds" for c cs d ds
    proof -
      from skip_ws_Cons_length [OF that(1)] length_skip_ws [of cs] that(2)
      have "length (d # ds) < length s"
        by simp
      with n m m' have "2 * length (d # ds) + 1 < n \<and> 2 * length (d # ds) + 1 < m'"
        by simp
      then show "parse_elements n [] (d # ds) = parse_elements m' [] (d # ds)"
        and "parse_members n [] (d # ds) = parse_members m' [] (d # ds)"
        by (rule ihe, rule ihm)
    qed
    show ?thesis
      unfolding m' parse_value.simps [of "Suc n" s] parse_value.simps [of "Suc m'" s]
      by (auto split: list.splits simp: inner)
  qed
  have pe: "parse_elements (Suc n) acc s = parse_elements m acc s"
    if n: "2 * length s + 1 < Suc n" and m: "2 * length s + 1 < m"
  proof -
    from m obtain m' where m': "m = Suc m'"
      by (cases m) auto
    from n m m' have v: "parse_value m' s = parse_value n s"
      by (intro ihv [symmetric]) simp
    have inner: "parse_elements n (acc @ [v1]) cs = parse_elements m' (acc @ [v1]) cs"
      if "parse_value n s = Some (v1, r1)" and "skip_ws r1 = c # cs" for v1 r1 c cs
    proof -
      from parse_length_value [OF that(1)] skip_ws_Cons_length [OF that(2)] n m m'
      have "2 * length cs + 1 < n \<and> 2 * length cs + 1 < m'"
        by simp
      then show ?thesis
        by (rule ihe)
    qed
    show ?thesis
      unfolding m' parse_elements.simps [of "Suc n" acc s] parse_elements.simps [of "Suc m'" acc s]
      by (auto split: option.splits list.splits simp: v inner)
  qed
  have pm: "parse_members (Suc n) facc s = parse_members m facc s"
    if n: "2 * length s + 1 < Suc n" and m: "2 * length s + 1 < m"
  proof -
    from m obtain m' where m': "m = Suc m'"
      by (cases m) auto
    have inner_value: "parse_value n ds = parse_value m' ds"
      if "skip_ws s = c # cs" and "parse_string cs = Some (k, r1)" and "skip_ws r1 = d # ds"
      for c cs k r1 d ds
    proof -
      from skip_ws_Cons_length [OF that(1)] parse_string_length [OF that(2)]
        skip_ws_Cons_length [OF that(3)] n m m'
      have "2 * length ds < n \<and> 2 * length ds < m'"
        by simp
      then show ?thesis
        by (rule ihv)
    qed
    have inner: "parse_members n (set_prop k v1 facc) xs = parse_members m' (set_prop k v1 facc) xs"
      if "skip_ws s = c # cs" and "parse_string cs = Some (k, r1)" and "skip_ws r1 = d # ds"
        and "parse_value m' ds = Some (v1, r2)" and "skip_ws r2 = x # xs"
      for c cs k r1 d ds v1 r2 x xs
    proof -
      from skip_ws_Cons_length [OF that(1)] parse_string_length [OF that(2)]
        skip_ws_Cons_length [OF that(3)] parse_length_value [OF that(4)]
        skip_ws_Cons_length [OF that(5)] n m m'
      have "2 * length xs + 1 < n \<and> 2 * length xs + 1 < m'"
        by simp
      then show ?thesis
        by (rule ihm)
    qed
    show ?thesis
      unfolding m' parse_members.simps [of "Suc n" facc s] parse_members.simps [of "Suc m'" facc s]
      by (auto split: option.splits list.splits simp: inner_value inner)
  qed
  from pv pe pm show ?case
    by blast
qed

text \<open>More fuel than \<open>JSON_parse\<close> gives changes nothing.\<close>

lemma JSON_parse_fuel:
  "2 * length s < n \<Longrightarrow>
   JSON_parse s =
     (case parse_value n s of
        None \<Rightarrow> None
      | Some (v, r) \<Rightarrow> if skip_ws r = [] then Some v else None)"
  using parse_fuel [THEN conjunct1, rule_format, of s "Suc (2 * length s)" n]
  by (simp add: JSON_parse_def del: parse_value.simps)

section \<open>The threshold of the conditional-save stage\<close>

text \<open>
  C1, as the code has it. A score below 7 skips persistence: the stage returns
  \<open>{saved: false}\<close> with no \<open>filePath\<close> and leaves the world as it was, and a run that
  reaches the stage with such a score ends as succeeded. A score of 7 or more invokes
  persistence: the directory is created and the file written; when both calls succeed
  the stage returns \<open>{saved: true}\<close> with the path of the file, and when one of them fails
  the stage fails with its error.
\<close>

theorem conditional_save_threshold:
  "(score i < 7 \<longrightarrow>
      conditionalSaveStep e w i = (w, Inr \<lparr>saved = False, filePath = None\<rparr>)
      \<and> (\<forall>m prev v r si.
            apply_mapping m v (output_log r) = Inr (VSaveIn si) \<and> checked_save_input si = Some i \<longrightarrow>
            run_stages e [(m, stage_conditional_save)] prev v (w, r) =
              (w, r\<lparr>output_log := output_log r @
                       [(''conditional-save'', VSaveOut \<lparr>saved = False, filePath = None\<rparr>)],
                    invoked := invoked r @ [''conditional-save''],
                    status := succeeded\<rparr>)))
   \<and> (7 \<le> score i \<longrightarrow>
        (case fs_mkdir e summaries_dir of
           Some err \<Rightarrow>
             conditionalSaveStep e w i = (log_call (Mkdir summaries_dir) w, Inl err)
         | None \<Rightarrow>
             (case fs_writeFile e (path_join_summaries (save_fileName e (title i)))
                     (save_content i) of
                Some err \<Rightarrow>
                  conditionalSaveStep e w i =
                    (log_call (WriteFile (path_join_summaries (save_fileName e (title i)))
                                 (save_content i))
                       (log_call (Mkdir summaries_dir) w), Inl err)
              | None \<Rightarrow>
                  conditionalSaveStep e w i =
                    ((log_call (WriteFile (path_join_summaries (save_fileName e (title i)))
                                  (save_content i))
                        (log_call (Mkdir summaries_dir) w))
                       \<lparr>files := (files w)(path_join_summaries (save_fileName e (title i))
                                             \<mapsto> save_content i)\<rparr>,
                     Inr \<lparr>saved = True,
                          filePath = Some (path_join_summaries (save_fileName e (title i)))\<rparr>))))"
proof (intro conjI impI allI)
  assume below: "score i < 7"
  show skip: "conditionalSaveStep e w i = (w, Inr \<lparr>saved = False, filePath = None\<rparr>)"
    using below by (simp add: conditionalSaveStep_def)
  fix m prev v and r :: run and si
  assume "apply_mapping m v (output_log r) = Inr (VSaveIn si) \<and> checked_save_input si = Some i"
  then show "run_stages e [(m, stage_conditional_save)] prev v (w, r) =
      (w, r\<lparr>output_log := output_log r @
               [(''conditional-save'', VSaveOut \<lparr>saved = False, filePath = None\<rparr>)],
            invoked := invoked r @ [''conditional-save''],
            status := succeeded\<rparr>)"
    by (simp add: stage_conditional_save_def lift_result_def skip)
next
  assume "7 \<le> score i"
  then have "\<not> score i < 7"
    by simp
  then show "(case fs_mkdir e summaries_dir of
           Some err \<Rightarrow>
             conditionalSaveStep e w i = (log_call (Mkdir summaries_dir) w, Inl err)
         | None \<Rightarrow>
             (case fs_writeFile e (path_join_summaries (save_fileName e (title i)))
                     (save_content i) of
                Some err \<Rightarrow>
                  conditionalSaveStep e w i =
                    (log_call (WriteFile (path_join_summaries (save_fileName e (title i)))
                                 (save_content i))
                       (log_call (Mkdir summaries_dir) w), Inl err)
              | None \<Rightarrow>
                  conditionalSaveStep e w i =
                    ((log_call (WriteFile (path_join_summaries (save_fileName e (title i)))
                                  (save_content i))
                        (log_call (Mkdir summaries_dir) w))
                       \<lparr>files := (files w)(path_join_summaries (save_fileName e (title i))
                                             \<mapsto> save_content i)\<rparr>,
                     Inr \<lparr>saved = True,
                          filePath = Some (path_join_summaries (save_fileName e (title i)))\<rparr>)))"
    by (simp add: conditionalSaveStep_def Let_def log_call_def split: option.splits)
qed

text \<open>
  The two sides of the boundary in the concrete environment: 6.99 is not saved, and a
  run that reaches the stage with it succeeds; 7 is saved, under the slug of the title
  and the clock.
\<close>

theorem conditional_save_threshold_witness:
  "conditionalSaveStep (example_env []) empty_world (example_save_input 6.99) =
     (empty_world, Inr \<lparr>saved = False, filePath = None\<rparr>)
   \<and> snd (run_stages (example_env []) [(None, stage_conditional_save)] ''critique''
        (VSaveIn \<lparr>url = js ''https://example.com/a'', title = js ''Example'',
                  score = JNum 6.99, summary = js ''A short summary.''\<rparr>)
        (empty_world, new_run (VInput \<lparr>url = js ''https://example.com/a''\<rparr>))) =
      \<lparr>initial_input = VInput \<lparr>url = js ''https://example.com/a''\<rparr>,
       output_log = [(''conditional-save'', VSaveOut \<lparr>saved = False, filePath = None\<rparr>)],
       status = succeeded, failure = None, invoked = [''conditional-save'']\<rparr>
   \<and> snd (conditionalSaveStep (example_env []) empty_world (example_save_input 7)) =
      Inr \<lparr>saved = True, filePath = Some (js ''workspace/summaries/example-1772032983320.md'')\<rparr>"
proof -
  note below = conditional_save_threshold [of "example_save_input 6.99" "example_env []" empty_world]
  note at = conditional_save_threshold [of "example_save_input 7" "example_env []" empty_world]
  have lt: "score (example_save_input 6.99) < 7"
    by (simp add: example_save_input_def)
  have ge: "7 \<le> score (example_save_input 7)"
    by (simp add: example_save_input_def)
  from below lt have skip: "conditionalSaveStep (example_env []) empty_world (example_save_input 6.99) =
      (empty_world, Inr \<lparr>saved = False, filePath = None\<rparr>)"
    by blast
  from below lt have runs: "\<forall>m prev v r si.
      apply_mapping m v (output_log r) = Inr (VSaveIn si)
        \<and> checked_save_input si = Some (example_save_input 6.99) \<longrightarrow>
      run_stages (example_env []) [(m, stage_conditional_save)] prev v (empty_world, r) =
        (empty_world, r\<lparr>output_log := output_log r @
               [(''conditional-save'', VSaveOut \<lparr>saved = False, filePath = None\<rparr>)],
            invoked := invoked r @ [''conditional-save''],
            status := succeeded\<rparr>)"
    by blast
  have run: "snd (run_stages (example_env []) [(None, stage_conditional_save)] ''critique''
        (VSaveIn \<lparr>url = js ''https://example.com/a'', title = js ''Example'',
                  score = JNum 6.99, summary = js ''A short summary.''\<rparr>)
        (empty_world, new_run (VInput \<lparr>url = js ''https://example.com/a''\<rparr>))) =
      \<lparr>initial_input = VInput \<lparr>url = js ''https://example.com/a''\<rparr>,
       output_log = [(''conditional-save'', VSaveOut \<lparr>saved = False, filePath = None\<rparr>)],
       status = succeeded, failure = None, invoked = [''conditional-save'']\<rparr>"
  proof -
    let ?si = "\<lparr>url = js ''https://example.com/a'', title = js ''Example'',
                score = JNum 6.99, summary = js ''A short summary.''\<rparr>"
    let ?r = "new_run (VInput \<lparr>url = js ''https://example.com/a''\<rparr>)"
    have "apply_mapping None (VSaveIn ?si) (output_log ?r) = Inr (VSaveIn ?si)
        \<and> checked_save_input ?si = Some (example_save_input 6.99)"
      by (simp add: apply_mapping_def checked_save_input_def example_save_input_def)
    with runs have "run_stages (example_env []) [(None, stage_conditional_save)] ''critique''
        (VSaveIn ?si) (empty_world, ?r) =
        (empty_world, ?r\<lparr>output_log := output_log ?r @
               [(''conditional-save'', VSaveOut \<lparr>saved = False, filePath = None\<rparr>)],
            invoked := invoked ?r @ [''conditional-save''],
            status := succeeded\<rparr>)"
      by blast
    then show ?thesis
      by (simp add: new_run_def)
  qed
  from at ge have save: "snd (conditionalSaveStep (example_env []) empty_world (example_save_input 7)) =
      Inr \<lparr>saved = True, filePath = Some (js ''workspace/summaries/example-1772032983320.md'')\<rparr>"
    by (simp add: example_simps)
  from skip run save show ?thesis
    by blast
qed

text \<open>
  Where C1 as it is written fails: the score is 8 and the file system refuses the
  write. The stage does not return \<open>{saved: true}\<close>; it fails with the error of the write.
\<close>

theorem conditional_save_write_error_counterexample:
  "(7 :: real) \<le> score (example_save_input 8)
   \<and> snd (conditionalSaveStep
           ((example_env []) \<lparr>fs_writeFile := (\<lambda>p c. Some (Error (js ''EACCES'')))\<rparr>)
           empty_world (example_save_input 8)) = Inl (Error (js ''EACCES''))"
  by (simp add: conditionalSaveStep_def example_simps)

section \<open>The fallback of the critique stage\<close>

text \<open>
  C3, as the code has it. When the critic's text is not parseable as JSON the critique
  stage does not fail: it returns the fallback judgment, with score 5, the one issue
  \<open>Could not parse critique\<close> and an empty suggestion. A run that reaches the critique
  stage then goes on to the conditional-save stage, which at score 5 does not save, and
  the run succeeds.
\<close>

theorem critique_unparseable_fallback:
  "critic_generate e (critique_prompt i) = Inr t \<and> JSON_parse t = None \<longrightarrow>
     critiqueStep e w i = (log_call (CriticGenerate (critique_prompt i)) w, Inr critique_fallback)
     \<and> get_prop critique_fallback (js ''score'') = Inr (JNum 5)
     \<and> get_prop critique_fallback (js ''issues'') =
         Inr (JArr [JStr (js ''Could not parse critique'')])
     \<and> get_prop critique_fallback (js ''suggestion'') = Inr (JStr [])
     \<and> (\<forall>m prev v r f sm.
           apply_mapping m v (output_log r) = Inr (VCritiqueIn i)
             \<and> fetch_result (output_log r) = Some f
             \<and> summarizer_result (output_log r) = Some sm \<longrightarrow>
           run_stages e
               [(m, stage_critique), (Some mapping_critique_to_save, stage_conditional_save)]
               prev v (w, r) =
             (log_call (CriticGenerate (critique_prompt i)) w,
              r\<lparr>output_log := output_log r @
                     [(''critique'', VCritique critique_fallback),
                      (''conditional-save'', VSaveOut \<lparr>saved = False, filePath = None\<rparr>)],
                 invoked := invoked r @ [''critique'', ''conditional-save''],
                 status := succeeded\<rparr>))"
proof (intro impI, elim conjE)
  assume gen: "critic_generate e (critique_prompt i) = Inr t" and bad: "JSON_parse t = None"
  have step: "critiqueStep e w i =
      (log_call (CriticGenerate (critique_prompt i)) w, Inr critique_fallback)"
    by (simp add: critiqueStep_def Let_def gen bad)
  have sc: "get_prop critique_fallback (js ''score'') = Inr (JNum 5)"
    by (simp add: get_prop_def critique_fallback_def js_def)
  have iss: "get_prop critique_fallback (js ''issues'') =
      Inr (JArr [JStr (js ''Could not parse critique'')])"
    by (simp add: get_prop_def critique_fallback_def js_def)
  have sug: "get_prop critique_fallback (js ''suggestion'') = Inr (JStr [])"
    by (simp add: get_prop_def critique_fallback_def js_def)
  have run: "run_stages e
               [(m, stage_critique), (Some mapping_critique_to_save, stage_conditional_save)]
               prev v (w, r) =
             (log_call (CriticGenerate (critique_prompt i)) w,
              r\<lparr>output_log := output_log r @
                     [(''critique'', VCritique critique_fallback),
                      (''conditional-save'', VSaveOut \<lparr>saved = False, filePath = None\<rparr>)],
                 invoked := invoked r @ [''critique'', ''conditional-save''],
                 status := succeeded\<rparr>)"
    if m: "apply_mapping m v (output_log r) = Inr (VCritiqueIn i)"
      and f: "fetch_result (output_log r) = Some f"
      and sm: "summarizer_result (output_log r) = Some sm"
    for m prev v and r :: run and f sm
    by (simp add: m stage_critique_def stage_conditional_save_def lift_result_def step
        mapping_critique_to_save_def map_critique_to_save_def sc
        fetch_result_append [OF f] summarizer_result_append [OF sm]
        checked_save_input_def conditionalSaveStep_def)
  from step sc iss sug run
  show "critiqueStep e w i =
       (log_call (CriticGenerate (critique_prompt i)) w, Inr critique_fallback)
     \<and> get_prop critique_fallback (js ''score'') = Inr (JNum 5)
     \<and> get_prop critique_fallback (js ''issues'') =
         Inr (JArr [JStr (js ''Could not parse critique'')])
     \<and> get_prop critique_fallback (js ''suggestion'') = Inr (JStr [])
     \<and> (\<forall>m prev v r f sm.
           apply_mapping m v (output_log r) = Inr (VCritiqueIn i)
             \<and> fetch_result (output_log r) = Some f
             \<and> summarizer_result (output_log r) = Some sm \<longrightarrow>
           run_stages e
               [(m, stage_critique), (Some mapping_critique_to_save, stage_conditional_save)]
               prev v (w, r) =
             (log_call (CriticGenerate (critique_prompt i)) w,
              r\<lparr>output_log := output_log r @
                     [(''critique'', VCritique critique_fallback),
                      (''conditional-save'', VSaveOut \<lparr>saved = False, filePath = None\<rparr>)],
                 invoked := invoked r @ [''critique'', ''conditional-save''],
                 status := succeeded\<rparr>))"
    by blast
qed

text \<open>
  The critic answers \<open>not json\<close>: the stage returns the fallback, and the run that stood
  after the summarizer goes through both remaining stages and succeeds without saving.
\<close>

theorem critique_unparseable_fallback_witness:
  "snd (critiqueStep (example_env (js ''not json'')) empty_world example_critique_input) =
     Inr critique_fallback
   \<and> snd (run_stages (example_env (js ''not json''))
        [(None, stage_critique), (Some mapping_critique_to_save, stage_conditional_save)]
        ''summarizer'' (VCritiqueIn example_critique_input) (empty_world, example_run)) =
      example_run
        \<lparr>output_log := output_log example_run @
           [(''critique'', VCritique critique_fallback),
            (''conditional-save'', VSaveOut \<lparr>saved = False, filePath = None\<rparr>)],
         invoked := [''fetch-page'', ''summarizer'', ''critique'', ''conditional-save''],
         status := succeeded\<rparr>"
proof -
  let ?e = "example_env (js ''not json'')"
  note fb = critique_unparseable_fallback
    [of ?e example_critique_input "js ''not json''" empty_world]
  have hyp: "critic_generate ?e (critique_prompt example_critique_input) = Inr (js ''not json'')
      \<and> JSON_parse (js ''not json'') = None"
    by (simp add: example_env_def js_def json_simps)
  from fb hyp have step: "critiqueStep ?e empty_world example_critique_input =
      (log_call (CriticGenerate (critique_prompt example_critique_input)) empty_world,
       Inr critique_fallback)"
    by blast
  have ctx: "apply_mapping None (VCritiqueIn example_critique_input) (output_log example_run) =
        Inr (VCritiqueIn example_critique_input)
      \<and> fetch_result (output_log example_run) = Some example_fetch_output
      \<and> summarizer_result (output_log example_run) =
          Some \<lparr>text_opt = Some (js ''A short summary.'')\<rparr>"
    by (simp add: example_run_def fetch_result_def summarizer_result_def getStepResult_def)
  from fb hyp ctx have "run_stages ?e
        [(None, stage_critique), (Some mapping_critique_to_save, stage_conditional_save)]
        ''summarizer'' (VCritiqueIn example_critique_input) (empty_world, example_run) =
      (log_call (CriticGenerate (critique_prompt example_critique_input)) empty_world,
       example_run
        \<lparr>output_log := output_log example_run @
           [(''critique'', VCritique critique_fallback),
            (''conditional-save'', VSaveOut \<lparr>saved = False, filePath = None\<rparr>)],
         invoked := invoked example_run @ [''critique'', ''conditional-save''],
         status := succeeded\<rparr>)"
    by blast
  with step show ?thesis
    by (simp add: example_run_def)
qed

text \<open>
  Where C3 as it is written fails: the issue of the fallback is not the text
  \<open>could not parse\<close>.
\<close>

theorem critique_fallback_issue_counterexample:
  "JSON_parse (js ''not json'') = None
   \<and> snd (critiqueStep (example_env (js ''not json'')) empty_world example_critique_input) =
       Inr critique_fallback
   \<and> get_prop critique_fallback (js ''issues'') \<noteq> Inr (JArr [JStr (js ''could not parse'')])"
  by (simp add: critiqueStep_def Let_def example_env_def get_prop_def critique_fallback_def
      js_def json_simps)

section \<open>The score of a critique\<close>





section \<open>The mapping functions: failures and defaults\<close>




section \<open>The mapping functions: determinism\<close>



section \<open>The title of a fetched page\<close>

lemma length_title_open [simp]: "length (js ''<title'') = 6"
  by (simp add: js_def)

lemma length_title_close [simp]: "length (js ''</title>'') = 8"
  by (simp add: js_def)

lemma upper_eq_60: "upper c = 60 \<longleftrightarrow> c = 60"
  by (auto simp: upper_def)

lemma match_title_at_decompose:
  assumes "match_title_at s = Some t"
  shows "\<exists>op attrs cl post. s = op @ attrs @ 62 # t @ cl @ post \<and> is_title_element op attrs t cl"
proof -
  let ?r = "drop 6 s"
  from assms have ci: "ci_prefix (js ''<title'') s"
    by (simp add: match_title_at_def split: if_splits)
  from assms ci obtain g b where d: "dropWhile (\<lambda>x. x \<noteq> 62) ?r = g # b"
    by (auto simp: match_title_at_def split: list.splits)
  from assms ci d have t: "t = takeWhile (\<lambda>x. x \<noteq> 60) b" and ne: "t \<noteq> []"
    and cl: "ci_prefix (js ''</title>'') (dropWhile (\<lambda>x. x \<noteq> 60) b)"
    by (auto simp: match_title_at_def split: if_splits)
  let ?rest = "dropWhile (\<lambda>x. x \<noteq> 60) b"
  have g: "g = 62"
    using hd_dropWhile [of "\<lambda>x. x \<noteq> 62" ?r] d by simp
  have "s = take 6 s @ ?r"
    by simp
  also have "?r = takeWhile (\<lambda>x. x \<noteq> 62) ?r @ g # b"
    using takeWhile_dropWhile_id [of "\<lambda>x. x \<noteq> 62" ?r] d by simp
  also have "b = t @ ?rest"
    by (simp add: t)
  also have "?rest = take 8 ?rest @ drop 8 ?rest"
    by simp
  finally have s: "s = take 6 s @ takeWhile (\<lambda>x. x \<noteq> 62) ?r @ 62 # t @ take 8 ?rest @ drop 8 ?rest"
    using g by simp
  have "62 \<notin> set (takeWhile (\<lambda>x. x \<noteq> 62) ?r)" and "60 \<notin> set t"
    unfolding t by (auto dest: set_takeWhileD)
  with ci cl ne
  have "is_title_element (take 6 s) (takeWhile (\<lambda>x. x \<noteq> 62) ?r) t (take 8 ?rest)"
    by (simp add: is_title_element_def ci_prefix_def)
  with s show ?thesis
    by blast
qed

lemma match_title_at_compose:
  assumes "is_title_element op attrs t cl"
  shows "match_title_at (op @ attrs @ 62 # t @ cl @ post) = Some t"
proof -
  from assms have op: "map upper op = map upper (js ''<title'')" and attrs: "62 \<notin> set attrs"
    and ne: "t \<noteq> []" and t: "60 \<notin> set t" and cl: "map upper cl = map upper (js ''</title>'')"
    by (simp_all add: is_title_element_def)
  from op have lop: "length op = 6"
    using map_eq_imp_length_eq [OF op] by simp
  from cl have lcl: "length cl = 8"
    using map_eq_imp_length_eq [OF cl] by simp
  from attrs have attrs': "\<forall>x\<in>set attrs. x \<noteq> 62"
    by blast
  from cl obtain c cl' where c: "cl = c # cl'" and "upper c = 60"
    by (cases cl) (auto simp: js_def upper_def)
  then have c60: "c = 60"
    by (simp add: upper_eq_60)
  have ci: "ci_prefix (js ''<title'') (op @ attrs @ 62 # t @ cl @ post)"
    using op lop by (simp add: ci_prefix_def)
  have d: "dropWhile (\<lambda>x. x \<noteq> 62) (drop 6 (op @ attrs @ 62 # t @ cl @ post)) = 62 # t @ cl @ post"
    using lop attrs' by simp
  from t have t': "\<forall>x\<in>set t. x \<noteq> 60"
    by blast
  have tk: "takeWhile (\<lambda>x. x \<noteq> 60) (t @ cl @ post) = t"
    using t' c c60 by simp
  have dr: "dropWhile (\<lambda>x. x \<noteq> 60) (t @ cl @ post) = cl @ post"
    using t' c c60 by simp
  have ci2: "ci_prefix (js ''</title>'') (cl @ post)"
    using cl lcl by (simp add: ci_prefix_def)
  show ?thesis
    unfolding match_title_at_def using ci d tk dr ci2 ne by simp
qed

lemma match_title_at_Nil [simp]: "match_title_at [] = None"
  by (simp add: match_title_at_def ci_prefix_def js_def)

lemma match_title_None_iff: "match_title s = None \<longleftrightarrow> (\<forall>k. match_title_at (drop k s) = None)"
proof (induction s)
  case Nil
  show ?case by simp
next
  case (Cons c cs)
  have "(\<forall>k. match_title_at (drop k (c # cs)) = None) \<longleftrightarrow>
      match_title_at (c # cs) = None \<and> (\<forall>k. match_title_at (drop k cs) = None)"
    by (metis drop0 drop_Suc_Cons not0_implies_Suc)
  with Cons show ?case
    by (auto split: option.splits)
qed

lemma match_title_first:
  "match_title_at (drop k s) = Some t \<Longrightarrow> (\<forall>j<k. match_title_at (drop j s) = None) \<Longrightarrow>
   match_title s = Some t"
proof (induction s arbitrary: k)
  case Nil
  then show ?case by simp
next
  case (Cons c cs)
  show ?case
  proof (cases k)
    case 0
    with Cons.prems show ?thesis by simp
  next
    case (Suc k')
    with Cons.prems have here: "match_title_at (c # cs) = None"
      by (metis drop0 zero_less_Suc)
    from Suc Cons.prems have "match_title_at (drop k' cs) = Some t"
      by simp
    moreover from Suc Cons.prems have "\<forall>j<k'. match_title_at (drop j cs) = None"
      by (metis Suc_less_eq drop_Suc_Cons)
    ultimately have "match_title cs = Some t"
      by (rule Cons.IH)
    with here show ?thesis by simp
  qed
qed

lemma page_title_none:
  assumes "\<forall>pre op attrs t cl post.
      html = pre @ op @ attrs @ 62 # t @ cl @ post \<longrightarrow> \<not> is_title_element op attrs t cl"
  shows "page_title html u = u"
proof -
  have "match_title_at (drop k html) = None" for k
  proof (cases "match_title_at (drop k html)")
    case None
    then show ?thesis .
  next
    case (Some t)
    then obtain op attrs cl post where
      d: "drop k html = op @ attrs @ 62 # t @ cl @ post" and el: "is_title_element op attrs t cl"
      using match_title_at_decompose by blast
    have "html = take k html @ op @ attrs @ 62 # t @ cl @ post"
      using append_take_drop_id [of k html] d by simp
    with assms el show ?thesis
      by blast
  qed
  then have "match_title html = None"
    by (simp add: match_title_None_iff)
  then show ?thesis
    by (simp add: page_title_def)
qed

lemma page_title_first:
  assumes html: "html = pre @ op @ attrs @ 62 # t @ cl @ post"
    and el: "is_title_element op attrs t cl"
    and first: "\<forall>pre' op' attrs' t' cl' post'.
      html = pre' @ op' @ attrs' @ 62 # t' @ cl' @ post' \<and> is_title_element op' attrs' t' cl'
      \<longrightarrow> length pre \<le> length pre'"
  shows "page_title html u = trim t"
proof -
  have here: "match_title_at (drop (length pre) html) = Some t"
    using match_title_at_compose [OF el] by (simp add: html)
  have before: "match_title_at (drop j html) = None" if j: "j < length pre" for j
  proof (cases "match_title_at (drop j html)")
    case None
    then show ?thesis .
  next
    case (Some t')
    then obtain op' attrs' cl' post' where
      d: "drop j html = op' @ attrs' @ 62 # t' @ cl' @ post'"
      and el': "is_title_element op' attrs' t' cl'"
      using match_title_at_decompose by blast
    have "html = take j html @ op' @ attrs' @ 62 # t' @ cl' @ post'"
      using append_take_drop_id [of j html] d by simp
    with first el' have "length pre \<le> length (take j html)"
      by blast
    with j show ?thesis
      by simp
  qed
  from here before have "match_title html = Some t"
    by (blast intro: match_title_first)
  then show ?thesis
    by (simp add: page_title_def)
qed

lemma first_title_offset_before:
  "first_title_offset s = Some k \<Longrightarrow> j < k \<Longrightarrow> match_title_at (drop j s) = None"
proof (induction s arbitrary: k j)
  case Nil
  then show ?case by simp
next
  case (Cons c cs)
  from Cons.prems have here: "match_title_at (c # cs) = None"
    by (auto split: option.splits)
  with Cons.prems obtain k' where k: "k = Suc k'" and off: "first_title_offset cs = Some k'"
    by auto
  show ?case
  proof (cases j)
    case 0
    with here show ?thesis by simp
  next
    case (Suc j')
    with Cons.prems k have "j' < k'"
      by simp
    with off have "match_title_at (drop j' cs) = None"
      by (rule Cons.IH)
    with Suc show ?thesis by simp
  qed
qed

lemma title_element_not_before:
  assumes "first_title_offset html = Some k"
    and "html = pre @ op @ attrs @ 62 # t @ cl @ post"
    and "is_title_element op attrs t cl"
  shows "k \<le> length pre"
proof (rule ccontr)
  assume "\<not> k \<le> length pre"
  then have "length pre < k"
    by simp
  with assms(1) have "match_title_at (drop (length pre) html) = None"
    by (rule first_title_offset_before)
  moreover have "match_title_at (drop (length pre) html) = Some t"
    using match_title_at_compose [OF assms(3)] by (simp add: assms(2))
  ultimately show False
    by simp
qed

lemma no_title_element:
  assumes "match_title html = None"
    and "html = pre @ op @ attrs @ 62 # t @ cl @ post"
  shows "\<not> is_title_element op attrs t cl"
proof
  assume "is_title_element op attrs t cl"
  then have "match_title_at (drop (length pre) html) = Some t"
    using match_title_at_compose by (simp add: assms(2))
  with assms(1) show False
    by (simp add: match_title_None_iff)
qed

lemmas title_simps = match_title_at_def ci_prefix_def upper_def js_def

text \<open>
  C10. On a page that was fetched, the fetch stage and the fetch tool return the same
  title. When no part of the page is a parseable title element the title is the request
  url; otherwise it is the trimmed text of the first such element, the one that starts
  leftmost.
\<close>

theorem fetch_title:
  "http_fetch e u = Inr res \<and> res_ok res \<and> res_text res = Inr html \<longrightarrow>
     map_sum id title (snd (fetchStep e w \<lparr>url = u\<rparr>)) = Inr (page_title html u)
     \<and> map_sum id tool_title (snd (fetchPageTool e w u)) = Inr (page_title html u)
     \<and> ((\<forall>pre op attrs t cl post.
            html = pre @ op @ attrs @ 62 # t @ cl @ post \<longrightarrow> \<not> is_title_element op attrs t cl)
          \<longrightarrow> page_title html u = u)
     \<and> (\<forall>pre op attrs t cl post.
           html = pre @ op @ attrs @ 62 # t @ cl @ post \<and> is_title_element op attrs t cl
           \<and> (\<forall>pre' op' attrs' t' cl' post'.
                 html = pre' @ op' @ attrs' @ 62 # t' @ cl' @ post'
                   \<and> is_title_element op' attrs' t' cl'
                 \<longrightarrow> length pre \<le> length pre')
           \<longrightarrow> page_title html u = trim t)"
proof (intro impI conjI allI; (elim conjE)?)
  assume ok: "http_fetch e u = Inr res" "res_ok res" "res_text res = Inr html"
  show "map_sum id title (snd (fetchStep e w \<lparr>url = u\<rparr>)) = Inr (page_title html u)"
    by (simp add: fetchStep_def Let_def ok)
  show "map_sum id tool_title (snd (fetchPageTool e w u)) = Inr (page_title html u)"
    by (simp add: fetchPageTool_def Let_def ok)
next
  assume "\<forall>pre op attrs t cl post.
     html = pre @ op @ attrs @ 62 # t @ cl @ post \<longrightarrow> \<not> is_title_element op attrs t cl"
  then show "page_title html u = u"
    by (rule page_title_none)
next
  fix pre op attrs t cl post
  assume "html = pre @ op @ attrs @ 62 # t @ cl @ post" and "is_title_element op attrs t cl"
    and "\<forall>pre' op' attrs' t' cl' post'.
                 html = pre' @ op' @ attrs' @ 62 # t' @ cl' @ post'
                   \<and> is_title_element op' attrs' t' cl'
                 \<longrightarrow> length pre \<le> length pre'"
  then show "page_title html u = trim t"
    by (rule page_title_first)
qed

text \<open>
  The example page has its first title element at offset 12 with the text \<open> Example \<close>;
  a page without one gets the url.
\<close>

theorem fetch_title_witness:
  "map_sum id title (snd (fetchStep (example_env []) empty_world \<lparr>url = js ''https://example.com/a''\<rparr>))
     = Inr (js ''Example'')
   \<and> map_sum id title
       (snd (fetchStep
          ((example_env []) \<lparr>http_fetch := (\<lambda>u. Inr \<lparr>res_ok = True, res_status = 200,
                                                       res_text = Inr untitled_html\<rparr>)\<rparr>)
          empty_world \<lparr>url = js ''https://example.com/a''\<rparr>))
     = Inr (js ''https://example.com/a'')"
proof -
  let ?u = "js ''https://example.com/a''"
  let ?e = "example_env []"
  let ?e' = "(example_env []) \<lparr>http_fetch := (\<lambda>u. Inr \<lparr>res_ok = True, res_status = 200,
                                                       res_text = Inr untitled_html\<rparr>)\<rparr>"
  let ?res = "\<lparr>res_ok = True, res_status = 200, res_text = Inr example_html\<rparr>"
  let ?res' = "\<lparr>res_ok = True, res_status = 200, res_text = Inr untitled_html\<rparr>"
  have ok: "http_fetch ?e ?u = Inr ?res \<and> res_ok ?res \<and> res_text ?res = Inr example_html"
    by (simp add: example_env_def)
  have ok': "http_fetch ?e' ?u = Inr ?res' \<and> res_ok ?res' \<and> res_text ?res' = Inr untitled_html"
    by (simp add: example_env_def)
  note titled = fetch_title [of ?e ?u ?res example_html empty_world, THEN mp, OF ok]
  note untitled = fetch_title [of ?e' ?u ?res' untitled_html empty_world, THEN mp, OF ok']
  have dec: "example_html = js ''<html><head>'' @ js ''<title'' @ [] @ 62 # js '' Example '' @
      js ''</title>'' @ js ''</head><body><p>Hello world</p></body></html>''"
    by (simp add: example_html_def js_def)
  have el: "is_title_element (js ''<title'') [] (js '' Example '') (js ''</title>'')"
    by (simp add: is_title_element_def js_def)
  have off: "first_title_offset example_html = Some 12"
    by (simp add: example_html_def title_simps)
  have least: "\<forall>pre' op' attrs' t' cl' post'.
      example_html = pre' @ op' @ attrs' @ 62 # t' @ cl' @ post' \<and> is_title_element op' attrs' t' cl'
      \<longrightarrow> length (js ''<html><head>'') \<le> length pre'"
  proof (intro allI impI, elim conjE)
    fix pre' op' attrs' t' cl' post'
    assume "example_html = pre' @ op' @ attrs' @ 62 # t' @ cl' @ post'"
      and "is_title_element op' attrs' t' cl'"
    with off have "12 \<le> length pre'"
      by (rule title_element_not_before)
    then show "length (js ''<html><head>'') \<le> length pre'"
      by (simp add: js_def)
  qed
  have "page_title example_html ?u = trim (js '' Example '')"
    by (rule titled [THEN conjunct2, THEN conjunct2, THEN conjunct2, rule_format])
      (rule conjI, rule dec, rule conjI, rule el, rule least)
  then have t1: "page_title example_html ?u = js ''Example''"
    by (simp add: trim_def is_ws_def js_def)
  have none: "match_title untitled_html = None"
    by (simp add: untitled_html_def title_simps)
  have "\<forall>pre op attrs t cl post.
      untitled_html = pre @ op @ attrs @ 62 # t @ cl @ post \<longrightarrow> \<not> is_title_element op attrs t cl"
  proof (intro allI impI)
    fix pre op attrs t cl post
    assume "untitled_html = pre @ op @ attrs @ 62 # t @ cl @ post"
    with none show "\<not> is_title_element op attrs t cl"
      by (rule no_title_element)
  qed
  then have t2: "page_title untitled_html ?u = ?u"
    by (rule untitled [THEN conjunct2, THEN conjunct2, THEN conjunct1, THEN mp])
  show ?thesis
    using titled [THEN conjunct1] untitled [THEN conjunct1] by (simp only: t1 t2)
qed

section \<open>The content and the word count of a fetched page\<close>

declare words_of.simps [simp del]
declare split_ws.simps [simp del]

lemma words_of_Nil [simp]: "words_of [] = []"
  by (simp add: words_of.simps)

lemma split_ws_Nil [simp]: "split_ws [] = [[]]"
  by (simp add: split_ws.simps)

lemma words_of_ws [simp]: "is_ws c \<Longrightarrow> words_of (c # s) = words_of s"
  by (subst words_of.simps, subst (2) words_of.simps) simp

lemma words_of_dropWhile [simp]: "words_of (dropWhile is_ws s) = words_of s"
  by (induction s) simp_all

lemma words_of_nonws:
  "s \<noteq> [] \<Longrightarrow> \<not> is_ws (hd s) \<Longrightarrow>
   words_of s = takeWhile (\<lambda>x. \<not> is_ws x) s # words_of (dropWhile (\<lambda>x. \<not> is_ws x) s)"
  by (cases s) (simp_all add: words_of.simps [of "_ # _"])

lemma dropWhile_rev_not_Nil: "dropWhile P (rev xs) \<noteq> [] \<Longrightarrow> xs \<noteq> []"
  by auto

lemma trimmed_trim: "trimmed (trim s)"
proof -
  let ?a = "dropWhile is_ws s"
  let ?b = "dropWhile is_ws (rev ?a)"
  show ?thesis
  proof (cases "?b = []")
    case True
    then show ?thesis by (simp add: trimmed_def trim_def)
  next
    case False
    then have l: "\<not> is_ws (hd ?b)"
      by (rule hd_dropWhile)
    from False have a: "?a \<noteq> []"
      by (rule dropWhile_rev_not_Nil)
    then have ha: "\<not> is_ws (hd ?a)"
      by (rule hd_dropWhile)
    have "rev ?a = takeWhile is_ws (rev ?a) @ ?b"
      by simp
    then have "?a = rev ?b @ rev (takeWhile is_ws (rev ?a))"
      by (metis rev_append rev_rev_ident)
    with False have "hd ?a = hd (rev ?b)"
      by (metis hd_append2 rev_is_Nil_conv)
    with ha have "\<not> is_ws (hd (rev ?b))"
      by simp
    moreover from False l have "\<not> is_ws (last (rev ?b))"
      by (simp add: last_rev)
    ultimately show ?thesis
      by (simp add: trimmed_def trim_def)
  qed
qed

lemma split_ws_trimmed:
  "s \<noteq> [] \<Longrightarrow> \<not> is_ws (hd s) \<Longrightarrow> \<not> is_ws (last s) \<Longrightarrow> split_ws s = words_of s"
proof (induction s rule: split_ws.induct)
  case (1 s)
  from "1.prems" have dw: "dropWhile is_ws s = s"
    by (cases s) simp_all
  show ?case
  proof (cases "dropWhile (\<lambda>c. \<not> is_ws c) s")
    case Nil
    then have all: "takeWhile (\<lambda>c. \<not> is_ws c) s = s"
      by (metis append_Nil2 takeWhile_dropWhile_id)
    have "words_of s =
        takeWhile (\<lambda>x. \<not> is_ws x) s # words_of (dropWhile (\<lambda>x. \<not> is_ws x) s)"
      using "1.prems" (1,2) by (rule words_of_nonws)
    then have "words_of s = [s]"
      by (simp only: all Nil words_of_Nil)
    moreover have "split_ws s = [s]"
      by (subst split_ws.simps) (simp add: Nil)
    ultimately show ?thesis by simp
  next
    case (Cons c rest)
    let ?r = "dropWhile is_ws rest"
    have c: "is_ws c"
      using hd_dropWhile [of "\<lambda>c. \<not> is_ws c" s] Cons by simp
    have s: "s = takeWhile (\<lambda>c. \<not> is_ws c) s @ c # rest"
      using takeWhile_dropWhile_id [of "\<lambda>c. \<not> is_ws c" s] Cons by simp
    have lastr: "last s = last (c # rest)"
      by (subst s) simp
    have rne: "?r \<noteq> []"
    proof
      assume "?r = []"
      then have "\<forall>x\<in>set (c # rest). is_ws x"
        using c by simp
      then have "is_ws (last (c # rest))"
        using last_in_set [of "c # rest"] by blast
      with lastr "1.prems" show False by simp
    qed
    then have hd: "\<not> is_ws (hd ?r)"
      by (rule hd_dropWhile)
    have "c # rest = (c # takeWhile is_ws rest) @ ?r"
      by simp
    then have "last (c # rest) = last ?r"
      using rne by (metis last_appendR)
    with lastr "1.prems" have last: "\<not> is_ws (last ?r)"
      by simp
    have IH: "split_ws ?r = words_of ?r"
      using "1.IH" [OF Cons rne hd last] .
    have "words_of s =
        takeWhile (\<lambda>x. \<not> is_ws x) s # words_of (dropWhile (\<lambda>x. \<not> is_ws x) s)"
      using "1.prems" (1,2) by (rule words_of_nonws)
    also have "words_of (dropWhile (\<lambda>x. \<not> is_ws x) s) = words_of ?r"
      using c by (simp add: Cons)
    finally have "words_of s = takeWhile (\<lambda>x. \<not> is_ws x) s # words_of ?r" .
    moreover have "split_ws s = takeWhile (\<lambda>c. \<not> is_ws c) s # split_ws ?r"
      by (subst split_ws.simps) (simp add: Cons)
    ultimately show ?thesis
      using IH by simp
  qed
qed

lemma is_ws_space [simp]: "is_ws 32"
  by (simp add: is_ws_def)

lemma is_word_hd: "is_word w \<Longrightarrow> \<not> is_ws (hd w)"
  by (cases w) (simp_all add: is_word_def)

lemma is_word_last: "is_word w \<Longrightarrow> \<not> is_ws (last w)"
  using last_in_set [of w] by (auto simp: is_word_def list_all_iff)

lemma is_word_all: "is_word w \<Longrightarrow> \<forall>c\<in>set w. \<not> is_ws c"
  by (simp add: is_word_def list_all_iff)

lemma words_of_word_append:
  assumes "is_word w" and "rest = [] \<or> is_ws (hd rest)"
  shows "words_of (w @ rest) = w # words_of rest"
proof -
  have ne: "w @ rest \<noteq> []" and hd: "\<not> is_ws (hd (w @ rest))"
    using assms(1) is_word_hd [OF assms(1)] by (simp_all add: is_word_def)
  have tk: "takeWhile (\<lambda>x. \<not> is_ws x) (w @ rest) = w"
    using is_word_all [OF assms(1)] assms(2) by (cases rest) simp_all
  have dr: "dropWhile (\<lambda>x. \<not> is_ws x) (w @ rest) = rest"
    using is_word_all [OF assms(1)] assms(2) by (cases rest) simp_all
  from words_of_nonws [OF ne hd] show ?thesis
    by (simp only: tk dr)
qed

lemma words_of_join: "list_all is_word ws \<Longrightarrow> words_of (join_sp ws) = ws"
proof (induction ws rule: join_sp.induct)
  case 1
  show ?case by simp
next
  case (2 x)
  then have "is_word x" by simp
  then have "words_of (x @ []) = x # words_of []"
    by (rule words_of_word_append) simp
  then show ?case by simp
next
  case (3 x y ys)
  then have x: "is_word x" and rest: "list_all is_word (y # ys)"
    by simp_all
  from x have "words_of (x @ 32 # join_sp (y # ys)) = x # words_of (32 # join_sp (y # ys))"
    by (rule words_of_word_append) simp
  with "3.IH" [OF rest] show ?case
    by simp
qed

lemma words_of_are_words: "list_all is_word (words_of s)"
proof (induction s rule: words_of.induct)
  case (1 s)
  show ?case
  proof (cases "dropWhile is_ws s")
    case Nil
    show ?thesis
      by (subst words_of.simps) (simp only: Nil list.case list.pred_inject)
  next
    case (Cons c cs)
    have c: "\<not> is_ws c"
      using hd_dropWhile [of is_ws s] Cons by simp
    have "is_word (takeWhile (\<lambda>x. \<not> is_ws x) (c # cs))"
      using c by (auto simp: is_word_def list_all_iff dest: set_takeWhileD)
    moreover have "list_all is_word (words_of (dropWhile (\<lambda>x. \<not> is_ws x) (c # cs)))"
      using "1.IH" [OF Cons] .
    moreover have "words_of s =
        takeWhile (\<lambda>x. \<not> is_ws x) (c # cs) # words_of (dropWhile (\<lambda>x. \<not> is_ws x) (c # cs))"
      by (subst words_of.simps) (simp only: Cons list.case)
    ultimately show ?thesis
      by (simp only: list.pred_inject simp_thms)
  qed
qed

lemma words_of_empty_iff: "trimmed s \<Longrightarrow> words_of s = [] \<longleftrightarrow> s = []"
proof
  assume t: "trimmed s" and w: "words_of s = []"
  show "s = []"
  proof (rule ccontr)
    assume "s \<noteq> []"
    with t have "\<not> is_ws (hd s)"
      by (simp add: trimmed_def)
    with \<open>s \<noteq> []\<close> have "words_of s \<noteq> []"
      using words_of_nonws [of s] by simp
    with w show False by simp
  qed
qed simp

text \<open>The content and the word count of a stripped text.\<close>

lemma content_and_count:
  assumes "trimmed s"
  shows "words_of (join_sp (take n (split_ws s))) = take n (words_of s)"
    and "length (split_ws s) = (if s = [] then 1 else length (words_of s))"
proof -
  show "words_of (join_sp (take n (split_ws s))) = take n (words_of s)"
  proof (cases "s = []")
    case True
    then show ?thesis
      by (cases n) simp_all
  next
    case False
    with assms have "split_ws s = words_of s"
      by (simp add: trimmed_def split_ws_trimmed)
    moreover have "list_all is_word (take n (words_of s))"
      using words_of_are_words [of s] by (auto simp: list_all_iff dest: in_set_takeD)
    ultimately show ?thesis
      by (simp add: words_of_join)
  qed
  show "length (split_ws s) = (if s = [] then 1 else length (words_of s))"
    using assms by (cases "s = []") (simp_all add: trimmed_def split_ws_trimmed)
qed

lemma ci_prefix_lt: "ci_prefix (60 # p) (c # cs) \<Longrightarrow> c = 60"
  by (auto simp: ci_prefix_def upper_def split: if_splits)

lemma strip_element_no_lt: "60 \<notin> set s \<Longrightarrow> strip_element tag s = s"
  by (induction s) (auto dest: ci_prefix_lt)

lemma strip_tags_no_lt: "60 \<notin> set s \<Longrightarrow> strip_tags s = s"
  by (induction s) auto

lemma collapse_ws_nonws: "\<not> is_ws c \<Longrightarrow> collapse_ws (c # s) = c # collapse_ws s"
  by (cases s) simp_all

lemma collapse_ws_word: "list_all (\<lambda>c. \<not> is_ws c) w \<Longrightarrow> collapse_ws (w @ rest) = w @ collapse_ws rest"
  by (induction w) (simp_all add: collapse_ws_nonws)

lemma join_sp_Cons: "join_sp (x # xs) = (if xs = [] then x else x @ 32 # join_sp xs)"
  by (cases xs) simp_all

lemma hd_join_sp: "is_word y \<Longrightarrow> join_sp (y # ys) \<noteq> [] \<and> hd (join_sp (y # ys)) = hd y"
  by (simp add: join_sp_Cons is_word_def)

lemma collapse_ws_join: "list_all is_word ws \<Longrightarrow> collapse_ws (join_sp ws) = join_sp ws"
proof (induction ws rule: join_sp.induct)
  case 1
  show ?case by simp
next
  case (2 x)
  then have "list_all (\<lambda>c. \<not> is_ws c) x"
    by (simp add: is_word_def)
  then have "collapse_ws (x @ []) = x @ collapse_ws []"
    by (rule collapse_ws_word)
  then show ?case by simp
next
  case (3 x y ys)
  then have "is_word x" and y: "is_word y" and rest: "list_all is_word (y # ys)"
    by simp_all
  then have x: "list_all (\<lambda>c. \<not> is_ws c) x"
    by (simp add: is_word_def)
  have ne: "join_sp (y # ys) \<noteq> []" and h: "hd (join_sp (y # ys)) = hd y"
    using hd_join_sp [OF y, of ys] by simp_all
  from ne obtain d ds where j: "join_sp (y # ys) = d # ds"
    by (cases "join_sp (y # ys)") auto
  with h have d: "d = hd y"
    by simp
  from d y have nd: "\<not> is_ws d"
    by (simp add: is_word_hd)
  have "collapse_ws (32 # join_sp (y # ys)) = 32 # collapse_ws (join_sp (y # ys))"
    unfolding j using nd by simp
  with "3.IH" [OF rest] have "collapse_ws (32 # join_sp (y # ys)) = 32 # join_sp (y # ys)"
    by simp
  with collapse_ws_word [OF x, of "32 # join_sp (y # ys)"] show ?case
    by simp
qed

lemma trimmed_join: "list_all is_word ws \<Longrightarrow> trimmed (join_sp ws)"
proof (induction ws rule: join_sp.induct)
  case 1
  show ?case by (simp add: trimmed_def)
next
  case (2 x)
  then show ?case
    by (simp add: trimmed_def is_word_hd is_word_last)
next
  case (3 x y ys)
  then have x: "is_word x" and y: "is_word y" and rest: "list_all is_word (y # ys)"
    by simp_all
  from hd_join_sp [OF y, of ys] have ne: "join_sp (y # ys) \<noteq> []"
    by simp
  with "3.IH" [OF rest] have "\<not> is_ws (last (join_sp (y # ys)))"
    by (simp add: trimmed_def)
  with ne x show ?case
    by (simp add: trimmed_def is_word_hd is_word_def)
qed

lemma trim_trimmed: "trimmed s \<Longrightarrow> trim s = s"
proof (cases "s = []")
  case True
  then show ?thesis by (simp add: trim_def)
next
  case False
  assume "trimmed s"
  with False have h: "\<not> is_ws (hd s)" and l: "\<not> is_ws (last s)"
    by (simp_all add: trimmed_def)
  from False h have a: "dropWhile is_ws s = s"
    by (cases s) simp_all
  from False l have "\<not> is_ws (hd (rev s))"
    by (simp add: hd_rev)
  with False have b: "dropWhile is_ws (rev s) = rev s"
    by (cases "rev s") simp_all
  show ?thesis
    by (simp add: trim_def a b)
qed

lemma set_join_sp: "set (join_sp ws) \<subseteq> insert 32 (\<Union>w\<in>set ws. set w)"
  by (induction ws rule: join_sp.induct) auto

lemma strip_html_words:
  assumes "list_all is_word ws" and "60 \<notin> set (join_sp ws)"
  shows "strip_html (join_sp ws) = join_sp ws"
  by (simp add: strip_html_def strip_element_no_lt strip_tags_no_lt assms collapse_ws_join
      trim_trimmed trimmed_join)

lemma trimmed_strip_html: "trimmed (strip_html html)"
  by (simp add: strip_html_def trimmed_trim)

lemma strip_many_words: "strip_html many_words_html = many_words_html"
  and words_many_words: "words_of many_words_html = replicate 8001 (js ''a'')"
proof -
  have w: "list_all is_word (replicate 8001 (js ''a''))"
    by (simp add: list_all_iff is_word_def js_def is_ws_def)
  have "set (join_sp (replicate 8001 (js ''a''))) \<subseteq> {32, 97}"
    using set_join_sp [of "replicate 8001 (js ''a'')"] by (auto simp: js_def)
  then have "60 \<notin> set (join_sp (replicate 8001 (js ''a'')))"
    by auto
  with w show "strip_html many_words_html = many_words_html"
    unfolding many_words_html_def by (rule strip_html_words)
  from w show "words_of many_words_html = replicate 8001 (js ''a'')"
    unfolding many_words_html_def by (rule words_of_join)
qed

text \<open>
  The content and the word count of a page that was fetched, for the fetch stage and the
  fetch tool alike. With \<open>words_of\<close> counting the words of a text: the content holds
  exactly the first 8000 words of the stripped text, so at most 8000; the word count is
  taken on the whole stripped text and is its number of words, except that it is 1 for
  an empty text; so on a text of more than 8000 words the word count exceeds the number
  of words of the content.
\<close>

theorem fetch_content_and_word_count:
  "http_fetch e u = Inr res \<and> res_ok res \<and> res_text res = Inr html \<longrightarrow>
     map_sum id (\<lambda>out. words_of (content out)) (snd (fetchStep e w \<lparr>url = u\<rparr>)) =
       Inr (take 8000 (words_of (strip_html html)))
     \<and> map_sum id (\<lambda>out. words_of (tool_content out)) (snd (fetchPageTool e w u)) =
       Inr (take 8000 (words_of (strip_html html)))
     \<and> map_sum id wordCount (snd (fetchStep e w \<lparr>url = u\<rparr>)) =
       Inr (if strip_html html = [] then 1 else length (words_of (strip_html html)))
     \<and> map_sum id tool_wordCount (snd (fetchPageTool e w u)) =
       Inr (if strip_html html = [] then 1 else length (words_of (strip_html html)))
     \<and> length (take 8000 (words_of (strip_html html))) \<le> 8000
     \<and> (8000 < length (words_of (strip_html html)) \<longrightarrow>
          length (take 8000 (words_of (strip_html html))) < length (words_of (strip_html html)))"
proof (intro impI, elim conjE)
  assume ok: "http_fetch e u = Inr res" "res_ok res" "res_text res = Inr html"
  note cc = content_and_count [OF trimmed_strip_html [of html]]
  have "map_sum id (\<lambda>out. words_of (content out)) (snd (fetchStep e w \<lparr>url = u\<rparr>)) =
       Inr (take 8000 (words_of (strip_html html)))"
    by (simp add: fetchStep_def Let_def ok cc(1))
  moreover have "map_sum id (\<lambda>out. words_of (tool_content out)) (snd (fetchPageTool e w u)) =
       Inr (take 8000 (words_of (strip_html html)))"
    by (simp add: fetchPageTool_def Let_def ok cc(1))
  moreover have "map_sum id wordCount (snd (fetchStep e w \<lparr>url = u\<rparr>)) =
       Inr (if strip_html html = [] then 1 else length (words_of (strip_html html)))"
    by (simp add: fetchStep_def Let_def ok cc(2))
  moreover have "map_sum id tool_wordCount (snd (fetchPageTool e w u)) =
       Inr (if strip_html html = [] then 1 else length (words_of (strip_html html)))"
    by (simp add: fetchPageTool_def Let_def ok cc(2))
  ultimately show "map_sum id (\<lambda>out. words_of (content out)) (snd (fetchStep e w \<lparr>url = u\<rparr>)) =
       Inr (take 8000 (words_of (strip_html html)))
     \<and> map_sum id (\<lambda>out. words_of (tool_content out)) (snd (fetchPageTool e w u)) =
       Inr (take 8000 (words_of (strip_html html)))
     \<and> map_sum id wordCount (snd (fetchStep e w \<lparr>url = u\<rparr>)) =
       Inr (if strip_html html = [] then 1 else length (words_of (strip_html html)))
     \<and> map_sum id tool_wordCount (snd (fetchPageTool e w u)) =
       Inr (if strip_html html = [] then 1 else length (words_of (strip_html html)))
     \<and> length (take 8000 (words_of (strip_html html))) \<le> 8000
     \<and> (8000 < length (words_of (strip_html html)) \<longrightarrow>
          length (take 8000 (words_of (strip_html html))) < length (words_of (strip_html html)))"
    by simp
qed

text \<open>The page of 8001 words: 8000 of them are in the content, and the word count is 8001.\<close>

theorem fetch_content_and_word_count_witness:
  "map_sum id (\<lambda>out. words_of (content out))
       (snd (fetchStep (page_env many_words_html) empty_world \<lparr>url = js ''https://example.com/a''\<rparr>)) =
     Inr (replicate 8000 (js ''a''))
   \<and> map_sum id wordCount
       (snd (fetchStep (page_env many_words_html) empty_world \<lparr>url = js ''https://example.com/a''\<rparr>)) =
     Inr 8001"
proof -
  let ?u = "js ''https://example.com/a''"
  let ?res = "\<lparr>res_ok = True, res_status = 200, res_text = Inr many_words_html\<rparr>"
  have ok: "http_fetch (page_env many_words_html) ?u = Inr ?res \<and> res_ok ?res
      \<and> res_text ?res = Inr many_words_html"
    by (simp add: page_env_def)
  note t = fetch_content_and_word_count
    [of "page_env many_words_html" ?u ?res many_words_html empty_world, THEN mp, OF ok]
  have ne: "strip_html many_words_html \<noteq> []"
    using words_many_words by (auto simp: strip_many_words)
  from t [THEN conjunct1] t [THEN conjunct2, THEN conjunct2, THEN conjunct1] ne
  show ?thesis
    by (simp add: strip_many_words words_many_words)
qed

text \<open>
  C9 at a page with an empty body: the stripped text is empty and has no word, the
  content is empty, and the word count is 1, since \<open>''.split(/\s+/)\<close> is the one piece
  \<open>''\<close>.
\<close>

theorem fetch_empty_page_word_count:
  "strip_html [] = []
   \<and> words_of (strip_html []) = []
   \<and> snd (fetchStep (page_env []) empty_world \<lparr>url = js ''https://example.com/a''\<rparr>) =
     Inr \<lparr>url = js ''https://example.com/a'', title = js ''https://example.com/a'',
          content = [], wordCount = 1\<rparr>
   \<and> snd (fetchPageTool (page_env []) empty_world (js ''https://example.com/a'')) =
     Inr \<lparr>tool_content = [], tool_title = js ''https://example.com/a'', tool_wordCount = 1\<rparr>"
proof -
  have s: "strip_html [] = []"
    by (simp add: strip_html_def trim_def)
  have t: "page_title [] (js ''https://example.com/a'') = js ''https://example.com/a''"
    by (simp add: page_title_def)
  show ?thesis
    by (simp add: s t fetchStep_def fetchPageTool_def Let_def page_env_def)
qed

section \<open>Runs of the workflow\<close>

text \<open>
  What a run of a pipeline ends as: some first stages have recorded their outputs, in
  declared order, and either all of them have, and the run has succeeded, or the run has
  failed at the next stage, in that stage or in the mapping before it; the stages that were
  invoked are those that recorded an output and, for a stage failure, the failing one.
\<close>

lemma run_stages_outcome:
  "run_stages e p prev v (w, r) = (w', r') \<Longrightarrow>
   (\<exists>outs k. k \<le> length p \<and> output_log r' = output_log r @ outs
      \<and> map fst outs = take k (stage_names p)
      \<and> ((k = length p \<and> status r' = succeeded \<and> failure r' = failure r
            \<and> invoked r' = invoked r @ stage_names p)
         \<or> (k < length p \<and> status r' = failed
            \<and> ((\<exists>err. failure r' = Some (StageError (stage_names p ! k) err)
                   \<and> invoked r' = invoked r @ take (Suc k) (stage_names p))
               \<or> (\<exists>err. failure r' = Some (MappingError (if k = 0 then prev else stage_names p ! (k - 1))
                                              (stage_names p ! k) err)
                   \<and> invoked r' = invoked r @ take k (stage_names p))))))"
proof (induction p arbitrary: prev v w r)
  case Nil
  then show ?case
    by (auto simp: stage_names_def)
next
  case (Cons ms rest)
  obtain m s where ms: "ms = (m, s)"
    by (cases ms)
  show ?case
  proof (cases "apply_mapping m v (output_log r)")
    case (Inl err)
    with Cons.prems ms have "r' = r\<lparr>status := failed, failure := Some (MappingError prev (name s) err)\<rparr>"
      by simp
    then show ?thesis
      by (intro exI [of _ "[]"] exI [of _ 0]) (simp add: stage_names_def ms)
  next
    case (Inr x)
    show ?thesis
    proof (cases "input_shape s x")
      case False
      with Cons.prems ms Inr
      have "r' = r\<lparr>status := failed, failure := Some (MappingError prev (name s) shape_violation)\<rparr>"
        by simp
      then show ?thesis
        by (intro exI [of _ "[]"] exI [of _ 0]) (simp add: stage_names_def ms)
    next
      case True
      obtain w1 res where ex: "execute s e w x (output_log r) = (w1, res)"
        by (cases "execute s e w x (output_log r)")
      show ?thesis
      proof (cases res)
        case (Inl err)
        with Cons.prems ms Inr True ex
        have "r' = r\<lparr>status := failed, failure := Some (StageError (name s) err),
                        invoked := invoked r @ [name s]\<rparr>"
          by simp
        then show ?thesis
          by (intro exI [of _ "[]"] exI [of _ 0]) (simp add: stage_names_def ms)
      next
        case (Inr out)
        let ?r1 = "r\<lparr>output_log := output_log r @ [(name s, out)], invoked := invoked r @ [name s]\<rparr>"
        from Cons.prems ms \<open>apply_mapping m v (output_log r) = Inr x\<close> True ex Inr
        have "run_stages e rest (name s) out (w1, ?r1) = (w', r')"
          by simp
        from Cons.IH [OF this] obtain outs k where k: "k \<le> length rest"
          and log: "output_log r' = output_log ?r1 @ outs"
          and names: "map fst outs = take k (stage_names rest)"
          and cases: "(k = length rest \<and> status r' = succeeded \<and> failure r' = failure ?r1
            \<and> invoked r' = invoked ?r1 @ stage_names rest)
         \<or> (k < length rest \<and> status r' = failed
            \<and> ((\<exists>err. failure r' = Some (StageError (stage_names rest ! k) err)
                   \<and> invoked r' = invoked ?r1 @ take (Suc k) (stage_names rest))
               \<or> (\<exists>err. failure r' = Some (MappingError (if k = 0 then name s else stage_names rest ! (k - 1))
                                              (stage_names rest ! k) err)
                   \<and> invoked r' = invoked ?r1 @ take k (stage_names rest))))"
          by blast
        have sn: "stage_names (ms # rest) = name s # stage_names rest"
          by (simp add: stage_names_def ms)
        have prevk: "(if Suc k = 0 then prev else stage_names (ms # rest) ! (Suc k - 1)) =
            (if k = 0 then name s else stage_names rest ! (k - 1))"
          by (cases k) (simp_all add: sn)
        show ?thesis
          apply (rule exI [of _ "(name s, out) # outs"])
          apply (rule exI [of _ "Suc k"])
          using k log names cases
          apply (simp only: prevk)
          apply (auto simp: sn)
          done
      qed
    qed
  qed
qed

text \<open>The run of the workflow, stage by stage.\<close>

lemma run_workflow_unfold:
  "run_workflow e w u =
     (case fetchStep e w \<lparr>url = u\<rparr> of
        (w1, Inl err) \<Rightarrow>
          (w1, run_record u [] failed (Some (StageError ''fetch-page'' err)) [''fetch-page''])
      | (w1, Inr f) \<Rightarrow>
          (case summarizeStep e w1 (map_fetch_to_summarize f) of
             (w2, Inl err) \<Rightarrow>
               (w2, run_record u [(''fetch-page'', VFetch f)] failed
                      (Some (StageError ''summarizer'' err)) [''fetch-page'', ''summarizer''])
           | (w2, Inr sm) \<Rightarrow>
               (case critiqueStep e w2 (critique_input_of f sm) of
                  (w3, Inl err) \<Rightarrow>
                    (w3, run_record u [(''fetch-page'', VFetch f), (''summarizer'', VSummary sm)]
                           failed (Some (StageError ''critique'' err))
                           [''fetch-page'', ''summarizer'', ''critique''])
                | (w3, Inr j) \<Rightarrow>
                    (case get_prop j (js ''score'') of
                       Inl err \<Rightarrow>
                         (w3, run_record u
                                [(''fetch-page'', VFetch f), (''summarizer'', VSummary sm),
                                 (''critique'', VCritique j)]
                                failed (Some (MappingError ''critique'' ''conditional-save'' err))
                                [''fetch-page'', ''summarizer'', ''critique''])
                     | Inr sc \<Rightarrow>
                         (case sc of
                            JNum x \<Rightarrow>
                              (case conditionalSaveStep e w3 (save_input_of f sm x) of
                                 (w4, Inl err) \<Rightarrow>
                                   (w4, run_record u
                                          [(''fetch-page'', VFetch f), (''summarizer'', VSummary sm),
                                           (''critique'', VCritique j)]
                                          failed (Some (StageError ''conditional-save'' err))
                                          [''fetch-page'', ''summarizer'', ''critique'',
                                           ''conditional-save''])
                               | (w4, Inr out) \<Rightarrow>
                                   (w4, run_record u
                                          [(''fetch-page'', VFetch f), (''summarizer'', VSummary sm),
                                           (''critique'', VCritique j),
                                           (''conditional-save'', VSaveOut out)]
                                          succeeded None
                                          [''fetch-page'', ''summarizer'', ''critique'',
                                           ''conditional-save'']))
                          | _ \<Rightarrow>
                              (w3, run_record u
                                     [(''fetch-page'', VFetch f), (''summarizer'', VSummary sm),
                                      (''critique'', VCritique j)]
                                     failed
                                     (Some (MappingError ''critique'' ''conditional-save''
                                              shape_violation))
                                     [''fetch-page'', ''summarizer'', ''critique'']))))))"
  by (simp add: run_workflow_def run_pipeline_def summarizeWorkflow_def new_run_def run_record_def
      stage_fetch_def stage_summarize_def stage_critique_def stage_conditional_save_def
      lift_result_def mapping_fetch_to_summarize_def mapping_summarize_to_critique_def
      mapping_critique_to_save_def map_summarize_to_critique_def map_critique_to_save_def
      fetch_result_def summarizer_result_def getStepResult_def checked_save_input_def
      critique_input_of_def save_input_of_def Let_def
      split: prod.splits sum.splits jsval.splits)

lemma stage_names_workflow: "stage_names summarizeWorkflow = workflow_stage_names"
  by (simp add: stage_names_def summarizeWorkflow_def workflow_stage_names_def stage_fetch_def
      stage_summarize_def stage_critique_def stage_conditional_save_def)

lemma run_workflow_succeeded:
  assumes "run_workflow e w u = (w', r)"
    and "status r = succeeded \<or> failure r = None \<or> map fst (output_log r) = workflow_stage_names"
  shows "\<exists>w1 w2 w3 f sm j x out.
      fetchStep e w \<lparr>url = u\<rparr> = (w1, Inr f)
      \<and> summarizeStep e w1 (map_fetch_to_summarize f) = (w2, Inr sm)
      \<and> critiqueStep e w2 (critique_input_of f sm) = (w3, Inr j)
      \<and> get_prop j (js ''score'') = Inr (JNum x)
      \<and> conditionalSaveStep e w3 (save_input_of f sm x) = (w', Inr out)
      \<and> r = run_record u
            [(''fetch-page'', VFetch f), (''summarizer'', VSummary sm), (''critique'', VCritique j),
             (''conditional-save'', VSaveOut out)]
            succeeded None workflow_stage_names"
  using assms unfolding run_workflow_unfold
  by (auto simp: run_record_def workflow_stage_names_def
      split: prod.splits sum.splits jsval.splits)

lemma conditionalSaveStep_output:
  "conditionalSaveStep e w i = (w', Inr out) \<Longrightarrow>
   (saved out = (filePath out \<noteq> None))
   \<and> (saved out \<longrightarrow>
        filePath out = Some (path_join_summaries (save_fileName e (title i)))
        \<and> files w' (path_join_summaries (save_fileName e (title i))) = Some (save_content i))"
  by (auto simp: conditionalSaveStep_def Let_def log_call_def split: if_splits option.splits)

lemma summarizeStep_text:
  "summarizeStep e w p = (w', Inr sm) \<Longrightarrow> \<exists>t. sm = \<lparr>text_opt = Some t\<rparr>"
  by (auto simp: summarizeStep_def Let_def split: sum.splits)

subsection \<open>Fail-fast execution\<close>

text \<open>
  C2. When the response of the fetch is not successful, the fetch stage fails with an
  error naming the url and the status, and the run of the workflow is failed with the
  failing stage \<open>fetch-page\<close>: only the fetch was called, nothing was recorded and no
  other stage was invoked. In every run of the workflow in which a stage fails, the status
  is failed, the failure carries the declared name of that stage, the stages invoked are
  exactly the stages up to and including it, and the recorded outputs are those of the
  stages before it. In the run loop a failing stage ends the run at once, whatever stages
  are declared after it.
\<close>

theorem workflow_fail_fast:
  "(\<forall>res. http_fetch e u = Inr res \<and> \<not> res_ok res \<longrightarrow>
      run_workflow e w u =
        (log_call (Fetch u) w,
         run_record u [] failed
           (Some (StageError ''fetch-page''
              (Error (js ''Failed to fetch '' @ u @ js '': '' @ show_nat (res_status res)))))
           [''fetch-page'']))
   \<and> (\<forall>w' r n err.
        run_workflow e w u = (w', r) \<and> failure r = Some (StageError n err) \<longrightarrow>
        status r = failed
        \<and> (\<exists>k<4. n = workflow_stage_names ! k
               \<and> invoked r = take (Suc k) workflow_stage_names
               \<and> map fst (output_log r) = take k workflow_stage_names))
   \<and> (\<forall>m s rest prev v r x w2 err.
        apply_mapping m v (output_log r) = Inr x \<and> input_shape s x
          \<and> execute s e w x (output_log r) = (w2, Inl err) \<longrightarrow>
        run_stages e ((m, s) # rest) prev v (w, r) =
          (w2, r\<lparr>status := failed, failure := Some (StageError (name s) err),
                 invoked := invoked r @ [name s]\<rparr>))"
proof (intro conjI)
  show "\<forall>res. http_fetch e u = Inr res \<and> \<not> res_ok res \<longrightarrow>
      run_workflow e w u =
        (log_call (Fetch u) w,
         run_record u [] failed
           (Some (StageError ''fetch-page''
              (Error (js ''Failed to fetch '' @ u @ js '': '' @ show_nat (res_status res)))))
           [''fetch-page''])"
  proof (intro allI impI)
    fix res
    assume "http_fetch e u = Inr res \<and> \<not> res_ok res"
    then have "fetchStep e w \<lparr>url = u\<rparr> =
        (log_call (Fetch u) w,
         Inl (Error (js ''Failed to fetch '' @ u @ js '': '' @ show_nat (res_status res))))"
      by (simp add: fetchStep_def Let_def failed_to_fetch_def)
    then show "run_workflow e w u =
          (log_call (Fetch u) w,
           run_record u [] failed
             (Some (StageError ''fetch-page''
                (Error (js ''Failed to fetch '' @ u @ js '': '' @ show_nat (res_status res)))))
             [''fetch-page''])"
      by (simp add: run_workflow_unfold)
  qed
  show "\<forall>w' r n err.
        run_workflow e w u = (w', r) \<and> failure r = Some (StageError n err) \<longrightarrow>
        status r = failed
        \<and> (\<exists>k<4. n = workflow_stage_names ! k
               \<and> invoked r = take (Suc k) workflow_stage_names
               \<and> map fst (output_log r) = take k workflow_stage_names)"
  proof (intro allI impI)
    fix w' r n err
    assume a: "run_workflow e w u = (w', r) \<and> failure r = Some (StageError n err)"
    then have run: "run_stages e summarizeWorkflow ''input'' (VInput \<lparr>url = u\<rparr>)
        (w, new_run (VInput \<lparr>url = u\<rparr>)) = (w', r)"
      by (simp add: run_workflow_def run_pipeline_def)
    from run_stages_outcome [OF run] obtain outs k where
      k: "k \<le> length summarizeWorkflow"
      and log: "output_log r = outs" and names: "map fst outs = take k workflow_stage_names"
      and cases: "(k = length summarizeWorkflow \<and> status r = succeeded \<and> failure r = None
              \<and> invoked r = workflow_stage_names)
           \<or> (k < length summarizeWorkflow \<and> status r = failed
              \<and> ((\<exists>err. failure r = Some (StageError (workflow_stage_names ! k) err)
                     \<and> invoked r = take (Suc k) workflow_stage_names)
                 \<or> (\<exists>err. failure r = Some (MappingError
                        (if k = 0 then ''input'' else workflow_stage_names ! (k - 1))
                        (workflow_stage_names ! k) err)
                     \<and> invoked r = take k workflow_stage_names)))"
      unfolding stage_names_workflow by (auto simp: new_run_def)
    have len: "length summarizeWorkflow = 4"
      by (simp add: summarizeWorkflow_def)
    from a cases have "k < 4 \<and> status r = failed \<and> n = workflow_stage_names ! k
        \<and> invoked r = take (Suc k) workflow_stage_names"
      by (auto simp: len)
    with log names show "status r = failed
          \<and> (\<exists>k<4. n = workflow_stage_names ! k
                 \<and> invoked r = take (Suc k) workflow_stage_names
                 \<and> map fst (output_log r) = take k workflow_stage_names)"
      by blast
  qed
  show "\<forall>m s rest prev v r x w2 err.
        apply_mapping m v (output_log r) = Inr x \<and> input_shape s x
          \<and> execute s e w x (output_log r) = (w2, Inl err) \<longrightarrow>
        run_stages e ((m, s) # rest) prev v (w, r) =
          (w2, r\<lparr>status := failed, failure := Some (StageError (name s) err),
                 invoked := invoked r @ [name s]\<rparr>)"
    by simp
qed

subsection \<open>The terminal output\<close>

text \<open>
  C6. A run of the workflow has no failure exactly when its status is succeeded, and
  exactly when all four stages have recorded an output. Such a run has invoked the four
  stages in declared order, and its terminal output is the last recorded output, which is
  the output of the conditional-save stage: it has the declared shape of that stage, a
  boolean \<open>saved\<close> and an optional \<open>filePath\<close>, and the path is present exactly when
  \<open>saved\<close> is true.
\<close>

theorem workflow_terminal_output:
  "run_workflow e w u = (w', r) \<longrightarrow>
     (failure r = None) = (status r = succeeded)
     \<and> (failure r = None) = (map fst (output_log r) = workflow_stage_names)
     \<and> (failure r = None \<longrightarrow>
          status r = succeeded
          \<and> invoked r = workflow_stage_names
          \<and> (\<exists>out. output_log r \<noteq> [] \<and> snd (last (output_log r)) = VSaveOut out
                \<and> terminalOutput r = Some (VSaveOut out)
                \<and> output_shape stage_conditional_save (VSaveOut out)
                \<and> saved out = (filePath out \<noteq> None)))"
proof
  assume run: "run_workflow e w u = (w', r)"
  have ok: "status r = succeeded \<and> failure r = None
      \<and> map fst (output_log r) = workflow_stage_names
      \<and> invoked r = workflow_stage_names
      \<and> (\<exists>out. output_log r \<noteq> [] \<and> snd (last (output_log r)) = VSaveOut out
            \<and> terminalOutput r = Some (VSaveOut out)
            \<and> output_shape stage_conditional_save (VSaveOut out)
            \<and> saved out = (filePath out \<noteq> None))"
    if "status r = succeeded \<or> failure r = None \<or> map fst (output_log r) = workflow_stage_names"
  proof -
    from run_workflow_succeeded [OF run that] obtain w3 f sm j x out where
      save: "conditionalSaveStep e w3 (save_input_of f sm x) = (w', Inr out)"
      and r: "r = run_record u
            [(''fetch-page'', VFetch f), (''summarizer'', VSummary sm), (''critique'', VCritique j),
             (''conditional-save'', VSaveOut out)]
            succeeded None workflow_stage_names"
      by blast
    from conditionalSaveStep_output [OF save] have "saved out = (filePath out \<noteq> None)"
      by simp
    with r show ?thesis
      by (simp add: run_record_def terminalOutput_def stage_conditional_save_def
          workflow_stage_names_def)
  qed
  then show "(failure r = None) = (status r = succeeded)
     \<and> (failure r = None) = (map fst (output_log r) = workflow_stage_names)
     \<and> (failure r = None \<longrightarrow>
          status r = succeeded
          \<and> invoked r = workflow_stage_names
          \<and> (\<exists>out. output_log r \<noteq> [] \<and> snd (last (output_log r)) = VSaveOut out
                \<and> terminalOutput r = Some (VSaveOut out)
                \<and> output_shape stage_conditional_save (VSaveOut out)
                \<and> saved out = (filePath out \<noteq> None)))"
    by blast
qed

subsection \<open>What the conditional-save stage receives\<close>

text \<open>
  C7. In every successful run of the workflow the outputs of the fetch stage, of the
  summarizer and of the critique stage are in the run context under the names of their
  stages; the mapping before the conditional-save stage builds its input from them: the
  score of the critique, the text of the summarizer as the summary, and the title and the
  url that the fetch stage recorded; the conditional-save stage is executed on that input,
  and when it saves, the file it writes carries that title, that url and that summary.
\<close>

theorem workflow_save_input:
  "run_workflow e w u = (w', r) \<and> status r = succeeded \<longrightarrow>
     (\<exists>w1 w2 w3 f t j x out.
        fetchStep e w \<lparr>url = u\<rparr> = (w1, Inr f)
        \<and> summarizeStep e w1 (map_fetch_to_summarize f) = (w2, Inr \<lparr>text_opt = Some t\<rparr>)
        \<and> critiqueStep e w2 \<lparr>url = url f, title = title f, text' = t\<rparr> = (w3, Inr j)
        \<and> get_prop j (js ''score'') = Inr (JNum x)
        \<and> getStepResult (output_log r) ''fetch-page'' = Some (VFetch f)
        \<and> getStepResult (output_log r) ''summarizer'' = Some (VSummary \<lparr>text_opt = Some t\<rparr>)
        \<and> getStepResult (output_log r) ''critique'' = Some (VCritique j)
        \<and> mapping_critique_to_save (VCritique j) (take 3 (output_log r)) =
            Inr (VSaveIn \<lparr>url = url f, title = title f, score = JNum x, summary = t\<rparr>)
        \<and> conditionalSaveStep e w3 \<lparr>url = url f, title = title f, score = x, summary = t\<rparr> =
            (w', Inr out)
        \<and> terminalOutput r = Some (VSaveOut out)
        \<and> (saved out \<longrightarrow>
             (\<exists>p. filePath out = Some p
                \<and> files w' p =
                    Some (js ''# '' @ title f @ [10, 10] @ js ''> Source: '' @ url f @ [10, 10]
                            @ t @ [10]))))"
proof (intro impI, elim conjE)
  assume run: "run_workflow e w u = (w', r)" and ok: "status r = succeeded"
  from run_workflow_succeeded [OF run] ok obtain w1 w2 w3 f sm j x out where
    fetch: "fetchStep e w \<lparr>url = u\<rparr> = (w1, Inr f)"
    and summ: "summarizeStep e w1 (map_fetch_to_summarize f) = (w2, Inr sm)"
    and crit: "critiqueStep e w2 (critique_input_of f sm) = (w3, Inr j)"
    and score: "get_prop j (js ''score'') = Inr (JNum x)"
    and save: "conditionalSaveStep e w3 (save_input_of f sm x) = (w', Inr out)"
    and r: "r = run_record u
          [(''fetch-page'', VFetch f), (''summarizer'', VSummary sm), (''critique'', VCritique j),
           (''conditional-save'', VSaveOut out)]
          succeeded None workflow_stage_names"
    by blast
  from summarizeStep_text [OF summ] obtain t where sm: "sm = \<lparr>text_opt = Some t\<rparr>"
    by blast
  have si: "save_input_of f sm x = \<lparr>url = url f, title = title f, score = x, summary = t\<rparr>"
    by (simp add: save_input_of_def sm)
  from summ have summ': "summarizeStep e w1 (map_fetch_to_summarize f) =
      (w2, Inr \<lparr>text_opt = Some t\<rparr>)"
    by (simp only: sm)
  from crit have crit': "critiqueStep e w2 \<lparr>url = url f, title = title f, text' = t\<rparr> =
      (w3, Inr j)"
    by (simp add: critique_input_of_def sm)
  from save have save': "conditionalSaveStep e w3
      \<lparr>url = url f, title = title f, score = x, summary = t\<rparr> = (w', Inr out)"
    by (simp only: si)
  have lookups: "getStepResult (output_log r) ''fetch-page'' = Some (VFetch f)"
    "getStepResult (output_log r) ''summarizer'' = Some (VSummary \<lparr>text_opt = Some t\<rparr>)"
    "getStepResult (output_log r) ''critique'' = Some (VCritique j)"
    by (simp_all add: r run_record_def getStepResult_def sm)
  have mapped: "mapping_critique_to_save (VCritique j) (take 3 (output_log r)) =
      Inr (VSaveIn \<lparr>url = url f, title = title f, score = JNum x, summary = t\<rparr>)"
    by (simp add: r run_record_def mapping_critique_to_save_def map_critique_to_save_def score
        fetch_result_def summarizer_result_def getStepResult_def sm)
  have terminal: "terminalOutput r = Some (VSaveOut out)"
    by (simp add: r run_record_def terminalOutput_def)
  have written: "saved out \<longrightarrow>
      (\<exists>p. filePath out = Some p
         \<and> files w' p =
             Some (js ''# '' @ title f @ [10, 10] @ js ''> Source: '' @ url f @ [10, 10]
                     @ t @ [10]))"
    using conditionalSaveStep_output [OF save] by (simp add: si save_content_def)
  from fetch summ' crit' score save' lookups mapped terminal written
  show "\<exists>w1 w2 w3 f t j x out.
        fetchStep e w \<lparr>url = u\<rparr> = (w1, Inr f)
        \<and> summarizeStep e w1 (map_fetch_to_summarize f) = (w2, Inr \<lparr>text_opt = Some t\<rparr>)
        \<and> critiqueStep e w2 \<lparr>url = url f, title = title f, text' = t\<rparr> = (w3, Inr j)
        \<and> get_prop j (js ''score'') = Inr (JNum x)
        \<and> getStepResult (output_log r) ''fetch-page'' = Some (VFetch f)
        \<and> getStepResult (output_log r) ''summarizer'' = Some (VSummary \<lparr>text_opt = Some t\<rparr>)
        \<and> getStepResult (output_log r) ''critique'' = Some (VCritique j)
        \<and> mapping_critique_to_save (VCritique j) (take 3 (output_log r)) =
            Inr (VSaveIn \<lparr>url = url f, title = title f, score = JNum x, summary = t\<rparr>)
        \<and> conditionalSaveStep e w3 \<lparr>url = url f, title = title f, score = x, summary = t\<rparr> =
            (w', Inr out)
        \<and> terminalOutput r = Some (VSaveOut out)
        \<and> (saved out \<longrightarrow>
             (\<exists>p. filePath out = Some p
                \<and> files w' p =
                    Some (js ''# '' @ title f @ [10, 10] @ js ''> Source: '' @ url f @ [10, 10]
                            @ t @ [10])))"
    by blast
qed

subsection \<open>The worked examples, evaluated\<close>

lemma parse_critic_text_8: "JSON_parse critic_text_8 = Some critique_8"
  by (simp add: critic_text_8_def critique_8_def js_def json_simps)

lemma parse_critic_text_3: "JSON_parse critic_text_3 = Some critique_3"
  by (simp add: critic_text_3_def critique_3_def js_def json_simps)

lemma strip_example_html: "strip_html example_html = js ''Example Hello world''"
  by (simp add: example_html_def strip_html_def js_def ci_prefix_def upper_def closing_def
      trim_def is_ws_def)

lemma split_example: "split_ws (js ''Example Hello world'') = [js ''Example'', js ''Hello'', js ''world'']"
  by (simp add: split_ws.simps js_def is_ws_def)

lemma title_example_html: "page_title example_html u = js ''Example''"
  by (simp add: page_title_def example_html_def title_simps trim_def is_ws_def)

lemma example_fetch:
  "fetchStep (example_env t) w \<lparr>url = example_url\<rparr> =
     (log_call (Fetch example_url) w, Inr example_fetch_output)"
  by (simp add: fetchStep_def Let_def example_env_def strip_example_html split_example
      title_example_html example_fetch_output_def example_url_def)
    (simp add: js_def)

lemma example_summarize:
  "summarizeStep (example_env t) w p = (log_call (SummarizerGenerate p) w, Inr example_summary)"
  by (simp add: summarizeStep_def Let_def example_env_def example_summary_def)

lemma example_critique:
  "JSON_parse t = Some v \<Longrightarrow>
   critiqueStep (example_env t) w i = (log_call (CriticGenerate (critique_prompt i)) w, Inr v)"
  by (simp add: critiqueStep_def Let_def example_env_def)

lemma example_critique_input_of:
  "critique_input_of example_fetch_output example_summary = example_critique_input"
  by (simp add: critique_input_of_def example_fetch_output_def example_summary_def
      example_critique_input_def)

lemma example_save_input_of:
  "save_input_of example_fetch_output example_summary x = example_save_input x"
  by (simp add: save_input_of_def example_fetch_output_def example_summary_def
      example_save_input_def)

lemma example_world: 
  "log_call (CriticGenerate (critique_prompt example_critique_input))
     (log_call (SummarizerGenerate (map_fetch_to_summarize example_fetch_output))
        (log_call (Fetch example_url) empty_world)) = world_after_critique"
  by (simp add: log_call_def empty_world_def world_after_critique_def)

lemma example_run_score_3:
  "run_workflow (example_env critic_text_3) empty_world example_url =
     (world_after_critique,
      run_record example_url
        [(''fetch-page'', VFetch example_fetch_output), (''summarizer'', VSummary example_summary),
         (''critique'', VCritique critique_3),
         (''conditional-save'', VSaveOut \<lparr>saved = False, filePath = None\<rparr>)]
        succeeded None workflow_stage_names)"
proof -
  have sc: "get_prop critique_3 (js ''score'') = Inr (JNum 3)"
    by (simp add: get_prop_def critique_3_def js_def)
  have save: "conditionalSaveStep (example_env critic_text_3) world_after_critique
      (example_save_input 3) = (world_after_critique, Inr \<lparr>saved = False, filePath = None\<rparr>)"
    by (simp add: conditionalSaveStep_def example_save_input_def)
  show ?thesis
    by (simp add: run_workflow_unfold example_fetch example_summarize
        example_critique [OF parse_critic_text_3] example_critique_input_of sc
        example_save_input_of example_world save workflow_stage_names_def)
qed

lemma example_run_score_8:
  "run_workflow (example_env critic_text_8) empty_world example_url =
     (world_after_critique
        \<lparr>calls := calls world_after_critique @
           [Mkdir summaries_dir, WriteFile example_path example_file],
         files := [example_path \<mapsto> example_file]\<rparr>,
      run_record example_url
        [(''fetch-page'', VFetch example_fetch_output), (''summarizer'', VSummary example_summary),
         (''critique'', VCritique critique_8),
         (''conditional-save'', VSaveOut \<lparr>saved = True, filePath = Some example_path\<rparr>)]
        succeeded None workflow_stage_names)"
proof -
  have sc: "get_prop critique_8 (js ''score'') = Inr (JNum 8)"
    by (simp add: get_prop_def critique_8_def js_def)
  have save: "conditionalSaveStep (example_env critic_text_8) world_after_critique
      (example_save_input 8) =
      (world_after_critique
        \<lparr>calls := calls world_after_critique @
           [Mkdir summaries_dir, WriteFile example_path example_file],
         files := [example_path \<mapsto> example_file]\<rparr>,
       Inr \<lparr>saved = True, filePath = Some example_path\<rparr>)"
    by (simp add: conditionalSaveStep_def Let_def world_after_critique_def example_path_def
        example_file_def example_simps)
  show ?thesis
    by (simp add: run_workflow_unfold example_fetch example_summarize
        example_critique [OF parse_critic_text_8] example_critique_input_of sc
        example_save_input_of example_world save workflow_stage_names_def)
qed

text \<open>
  A page that answers 404: the run fails at \<open>fetch-page\<close> with the error
  \<open>Failed to fetch https://example.com/a: 404\<close>, and only the fetch was called.
\<close>

theorem workflow_fail_fast_witness:
  "run_workflow env_404 empty_world example_url =
     (\<lparr>calls = [Fetch example_url], files = Map.empty\<rparr>,
      run_record example_url [] failed
        (Some (StageError ''fetch-page'' (Error (js ''Failed to fetch https://example.com/a: 404''))))
        [''fetch-page''])
   \<and> status (snd (run_workflow env_404 empty_world example_url)) = failed
   \<and> run_stages env_404 [(None, stage_fetch), (Some mapping_fetch_to_summarize, stage_summarize)]
       ''input'' (VInput \<lparr>url = example_url\<rparr>)
       (empty_world, new_run (VInput \<lparr>url = example_url\<rparr>)) =
     (\<lparr>calls = [Fetch example_url], files = Map.empty\<rparr>,
      run_record example_url [] failed
        (Some (StageError ''fetch-page'' (Error (js ''Failed to fetch https://example.com/a: 404''))))
        [''fetch-page''])"
proof -
  let ?res = "\<lparr>res_ok = False, res_status = 404, res_text = Inr []\<rparr>"
  let ?err = "Error (js ''Failed to fetch https://example.com/a: 404'')"
  let ?w = "\<lparr>calls = [Fetch example_url], files = Map.empty\<rparr>"
  let ?r = "run_record example_url [] failed (Some (StageError ''fetch-page'' ?err)) [''fetch-page'']"
  note t = workflow_fail_fast [of env_404 example_url empty_world]
  have msg: "js ''Failed to fetch '' @ example_url @ js '': '' @ [52, 48, 52] =
      js ''Failed to fetch https://example.com/a: 404''"
    by (simp add: example_url_def js_def)
  have "http_fetch env_404 example_url = Inr ?res \<and> \<not> res_ok ?res"
    by (simp add: env_404_def)
  with t [THEN conjunct1, rule_format, of ?res]
  have run: "run_workflow env_404 empty_world example_url = (?w, ?r)"
    by (simp add: msg log_call_def empty_world_def)
  have "failure ?r = Some (StageError ''fetch-page'' ?err)"
    by (simp add: run_record_def)
  with run t [THEN conjunct2, THEN conjunct1, rule_format, of ?w ?r "''fetch-page''" ?err]
  have "status ?r = failed"
    by simp
  with run have st: "status (snd (run_workflow env_404 empty_world example_url)) = failed"
    by simp
  let ?init = "new_run (VInput \<lparr>url = example_url\<rparr>)"
  have step: "execute stage_fetch env_404 empty_world (VInput \<lparr>url = example_url\<rparr>)
      (output_log ?init) = (?w, Inl ?err)"
    by (simp add: stage_fetch_def lift_result_def fetchStep_def Let_def env_404_def
        failed_to_fetch_def msg log_call_def empty_world_def)
  have "apply_mapping None (VInput \<lparr>url = example_url\<rparr>) (output_log ?init) =
        Inr (VInput \<lparr>url = example_url\<rparr>)
      \<and> input_shape stage_fetch (VInput \<lparr>url = example_url\<rparr>)
      \<and> execute stage_fetch env_404 empty_world (VInput \<lparr>url = example_url\<rparr>)
          (output_log ?init) = (?w, Inl ?err)"
    using step by (simp add: stage_fetch_def)
  note rs = t [THEN conjunct2, THEN conjunct2, rule_format,
      where rest = "[(Some mapping_fetch_to_summarize, stage_summarize)]" and prev = "''input''",
      OF this]
  have eq: "?init\<lparr>status := failed, failure := Some (StageError (name stage_fetch) ?err),
                invoked := invoked ?init @ [name stage_fetch]\<rparr> = ?r"
    by (simp add: new_run_def run_record_def stage_fetch_def)
  have "run_stages env_404 [(None, stage_fetch), (Some mapping_fetch_to_summarize, stage_summarize)]
       ''input'' (VInput \<lparr>url = example_url\<rparr>) (empty_world, ?init) = (?w, ?r)"
    using rs unfolding eq .
  with run st show ?thesis
    by (simp only: simp_thms)
qed

text \<open>
  A run in which the critic answers with a score of 3: it succeeds, and its terminal
  output is \<open>{saved: false}\<close>.
\<close>

theorem workflow_terminal_output_witness:
  "failure (snd (run_workflow (example_env critic_text_3) empty_world example_url)) = None
   \<and> status (snd (run_workflow (example_env critic_text_3) empty_world example_url)) = succeeded
   \<and> invoked (snd (run_workflow (example_env critic_text_3) empty_world example_url)) =
       [''fetch-page'', ''summarizer'', ''critique'', ''conditional-save'']
   \<and> terminalOutput (snd (run_workflow (example_env critic_text_3) empty_world example_url)) =
       Some (VSaveOut \<lparr>saved = False, filePath = None\<rparr>)"
proof -
  let ?r = "run_record example_url
        [(''fetch-page'', VFetch example_fetch_output), (''summarizer'', VSummary example_summary),
         (''critique'', VCritique critique_3),
         (''conditional-save'', VSaveOut \<lparr>saved = False, filePath = None\<rparr>)]
        succeeded None workflow_stage_names"
  note t = workflow_terminal_output
    [of "example_env critic_text_3" empty_world example_url world_after_critique ?r,
      THEN mp, OF example_run_score_3]
  have none: "failure ?r = None"
    by (simp add: run_record_def)
  from t [THEN conjunct2, THEN conjunct2, THEN mp, OF none]
  have "status ?r = succeeded" and "invoked ?r = workflow_stage_names"
    by simp_all
  moreover have "terminalOutput ?r = Some (VSaveOut \<lparr>saved = False, filePath = None\<rparr>)"
    by (simp add: terminalOutput_def run_record_def)
  ultimately show ?thesis
    using none by (simp add: example_run_score_3 workflow_stage_names_def)
qed

text \<open>
  A run in which the critic answers with a score of 8: the file is written under the
  title and the url of the fetched page, with the summary of the summarizer.
\<close>

theorem workflow_save_input_witness:
  "terminalOutput (snd (run_workflow (example_env critic_text_8) empty_world example_url)) =
     Some (VSaveOut \<lparr>saved = True, filePath = Some example_path\<rparr>)
   \<and> files (fst (run_workflow (example_env critic_text_8) empty_world example_url)) example_path =
     Some (js ''# '' @ title example_fetch_output @ [10, 10] @ js ''> Source: ''
             @ url example_fetch_output @ [10, 10] @ js ''A short summary.'' @ [10])"
proof -
  let ?e = "example_env critic_text_8"
  let ?w = "world_after_critique
        \<lparr>calls := calls world_after_critique @
           [Mkdir summaries_dir, WriteFile example_path example_file],
         files := [example_path \<mapsto> example_file]\<rparr>"
  let ?r = "run_record example_url
        [(''fetch-page'', VFetch example_fetch_output), (''summarizer'', VSummary example_summary),
         (''critique'', VCritique critique_8),
         (''conditional-save'', VSaveOut \<lparr>saved = True, filePath = Some example_path\<rparr>)]
        succeeded None workflow_stage_names"
  have "run_workflow ?e empty_world example_url = (?w, ?r) \<and> status ?r = succeeded"
    by (simp add: example_run_score_8 run_record_def)
  from workflow_save_input [of ?e empty_world example_url ?w ?r, THEN mp, OF this]
  obtain w1 f t out where
    fetch: "fetchStep ?e empty_world \<lparr>url = example_url\<rparr> = (w1, Inr f)"
    and summ: "getStepResult (output_log ?r) ''summarizer'' = Some (VSummary \<lparr>text_opt = Some t\<rparr>)"
    and out: "terminalOutput ?r = Some (VSaveOut out)"
    and written: "saved out \<longrightarrow>
      (\<exists>p. filePath out = Some p
         \<and> files ?w p =
             Some (js ''# '' @ title f @ [10, 10] @ js ''> Source: '' @ url f @ [10, 10]
                     @ t @ [10]))"
    by blast
  from fetch have f: "f = example_fetch_output"
    by (simp add: example_fetch)
  from summ have t: "t = js ''A short summary.''"
    by (simp add: run_record_def getStepResult_def example_summary_def)
  from out have o: "out = \<lparr>saved = True, filePath = Some example_path\<rparr>"
    by (simp add: terminalOutput_def run_record_def)
  from written have "files ?w example_path =
      Some (js ''# '' @ title example_fetch_output @ [10, 10] @ js ''> Source: ''
              @ url example_fetch_output @ [10, 10] @ js ''A short summary.'' @ [10])"
    by (simp add: o f t)
  with out o show ?thesis
    by (simp add: example_run_score_8)
qed

end
